theory Spec2Isabelle
  imports Main "HOL-Library.Signed_Division" "HOL-Library.Monad_Syntax" "HOL-Library.Word"
begin

section \<open>Machine integers\<close>

text \<open>
  The shift amounts are C++ \<open>int\<close> values (32 bits). They are modelled by \<open>int\<close> together
  with the range of the type: an operation whose mathematical result leaves the range is
  undefined behaviour in C++ and has the value \<open>None\<close> here, as has a remainder by zero.
  The operator \<open>%\<close> truncates towards zero, which is \<open>smod\<close>.
\<close>

definition INT_MIN :: int where
  "INT_MIN = - 2147483648"

definition INT_MAX :: int where
  "INT_MAX = 2147483647"

definition is_int :: "int \<Rightarrow> bool" where
  "is_int x \<longleftrightarrow> INT_MIN \<le> x \<and> x \<le> INT_MAX"

definition int_add :: "int \<Rightarrow> int \<Rightarrow> int option" where
  "int_add a b = (if is_int (a + b) then Some (a + b) else None)"

definition int_rem :: "int \<Rightarrow> int \<Rightarrow> int option" where
  "int_rem a b = (if b = 0 \<or> (a = INT_MIN \<and> b = - 1) then None else Some (a smod b))"

section \<open>Reduced shift amounts\<close>

text \<open>
  The loop \<open>while( reduced_shift < 0 ) reduced_shift += mod_size;\<close> of
  \<open>calcReducedShift\<close> (ShiftDecipher.cpp). A run that never leaves the loop, or that
  overflows, has no result: \<open>None\<close>.
\<close>

partial_function (option) calcReducedShift_while :: "int \<Rightarrow> int \<Rightarrow> int option" where
  "calcReducedShift_while reduced_shift mod_size =
     (if reduced_shift < 0
      then Option.bind (int_add reduced_shift mod_size) (\<lambda>r. calcReducedShift_while r mod_size)
      else Some reduced_shift)"

declare calcReducedShift_while.simps [code]

definition calcReducedShift :: "int \<Rightarrow> int \<Rightarrow> int option" where
  "calcReducedShift original_shift mod_size =
     (if original_shift < 0 then calcReducedShift_while original_shift mod_size
      else if original_shift \<ge> 0 then int_rem original_shift mod_size
      else Some 0)"

text \<open>The same function of the enciphering program, \<open>calculateEffectiveShift\<close>.\<close>

partial_function (option) calculateEffectiveShift_while :: "int \<Rightarrow> int \<Rightarrow> int option" where
  "calculateEffectiveShift_while eff_shift mod_size =
     (if eff_shift < 0
      then Option.bind (int_add eff_shift mod_size) (\<lambda>r. calculateEffectiveShift_while r mod_size)
      else Some eff_shift)"

declare calculateEffectiveShift_while.simps [code]

definition calculateEffectiveShift :: "int \<Rightarrow> int \<Rightarrow> int option" where
  "calculateEffectiveShift original_shift mod_size =
     (if original_shift < 0 then calculateEffectiveShift_while original_shift mod_size
      else if original_shift \<ge> 0 then int_rem original_shift mod_size
      else Some 0)"

section \<open>Alphabets and containers\<close>

text \<open>
  \<open>std::string\<close> is \<open>string\<close> (a list of bytes), \<open>std::valarray<char>\<close> is a list of
  bytes and \<open>std::map<char,char>\<close> is a partial map. The four alphabets are the constants of
  both programs (\<open>ORIG_UPPER\<close>, \<open>ORIG_LOWER\<close>, \<open>ORIG_NUMBERS\<close>, \<open>ORIG_PUNCTS\<close> in the
  enciphering program; \<open>ORIG_UPPERCASE\<close>, \<open>ORIG_LOWERCASE\<close>, \<open>ORIG_DIGITS\<close>,
  \<open>ORIG_PUNCTUATION_SYMBOLS\<close> in the deciphering program).
\<close>

type_synonym varrchr = "char list"
type_synonym chrdict = "char \<rightharpoonup> char"

definition ORIG_UPPER :: varrchr where
  "ORIG_UPPER = ''ABCDEFGHIJKLMNOPQRSTUVWXYZ''"

definition ORIG_LOWER :: varrchr where
  "ORIG_LOWER = ''abcdefghijklmnopqrstuvwxyz''"

definition ORIG_NUMBERS :: varrchr where
  "ORIG_NUMBERS = ''0123456789''"

definition ORIG_PUNCTS :: varrchr where
  "ORIG_PUNCTS =
     [CHR ''!'', CHR 0x22, CHR ''#'', CHR ''$'', CHR ''%'', CHR ''&'',
      CHR 0x27, CHR ''('', CHR '')'', CHR ''*'', CHR ''+'', CHR '','',
      CHR ''-'', CHR ''.'', CHR ''/'', CHR '':'', CHR '';'', CHR ''<'',
      CHR ''='', CHR ''>'', CHR ''?'', CHR ''@'', CHR ''['', CHR 0x5C,
      CHR '']'', CHR ''^'', CHR ''_'', CHR 0x60, CHR ''{'', CHR ''|'',
      CHR ''}'', CHR ''~'']"

definition ORIG_UPPERCASE :: varrchr where
  "ORIG_UPPERCASE = ''ABCDEFGHIJKLMNOPQRSTUVWXYZ''"

definition ORIG_LOWERCASE :: varrchr where
  "ORIG_LOWERCASE = ''abcdefghijklmnopqrstuvwxyz''"

definition ORIG_DIGITS :: varrchr where
  "ORIG_DIGITS = ''0123456789''"

definition ORIG_PUNCTUATION_SYMBOLS :: varrchr where
  "ORIG_PUNCTUATION_SYMBOLS =
     [CHR ''!'', CHR 0x22, CHR ''#'', CHR ''$'', CHR ''%'', CHR ''&'',
      CHR 0x27, CHR ''('', CHR '')'', CHR ''*'', CHR ''+'', CHR '','',
      CHR ''-'', CHR ''.'', CHR ''/'', CHR '':'', CHR '';'', CHR ''<'',
      CHR ''='', CHR ''>'', CHR ''?'', CHR ''@'', CHR ''['', CHR 0x5C,
      CHR '']'', CHR ''^'', CHR ''_'', CHR 0x60, CHR ''{'', CHR ''|'',
      CHR ''}'', CHR ''~'']"

text \<open>
  \<open>std::valarray::cshift(count)\<close>: element \<open>i\<close> of the result is element
  \<open>(i + count) mod size\<close> of the array, a circular shift to the left for a positive count
  and to the right for a negative one.
\<close>

definition cshift :: "'a list \<Rightarrow> int \<Rightarrow> 'a list" where
  "cshift xs count = (if xs = [] then [] else rotate (nat (count mod int (length xs))) xs)"

text \<open>
  The loops \<open>for(n = 0; n < size; ++n) cipher_dict[keys[n]] = vals[n];\<close> that fill the
  dictionary: \<open>operator[]\<close> of the map inserts the key or overwrites its value.
\<close>

definition dict_store :: "varrchr \<Rightarrow> varrchr \<Rightarrow> nat \<Rightarrow> chrdict \<Rightarrow> chrdict" where
  "dict_store keys vals sz d = fold (\<lambda>n d. d(keys ! n \<mapsto> vals ! n)) [0..<sz] d"

section \<open>The enciphering program: options and dictionary\<close>

record CipherOptions =
  program_name :: string
  prog_name_stripped :: string
  infilename :: string
  outfilename :: string
  use_default_oname :: bool
  shift_amount :: int
  effective_shift :: int
  numbers_shift :: int
  puncts_shift :: int
  enc_numbers :: bool
  enc_puncts :: bool
  cipher_dict :: chrdict
  nbytes_file :: nat
  display_log_info :: bool

text \<open>The default member initialisers of \<open>struct CipherOptions\<close>.\<close>

definition CipherOptions_default :: CipherOptions where
  "CipherOptions_default =
     \<lparr> program_name = [], prog_name_stripped = [], infilename = [], outfilename = [],
       use_default_oname = True, shift_amount = 5, effective_shift = 5,
       numbers_shift = 0, puncts_shift = 0, enc_numbers = False, enc_puncts = False,
       cipher_dict = Map.empty, nbytes_file = 0, display_log_info = False \<rparr>"

definition generateCipherDict :: "CipherOptions \<Rightarrow> CipherOptions option" where
  "generateCipherDict ciphopts = do {
     e \<leftarrow> calculateEffectiveShift (shift_amount ciphopts) 26;
     let o1 = ciphopts\<lparr>effective_shift := e\<rparr>;
     o2 \<leftarrow> (if enc_numbers o1
            then map_option (\<lambda>n. o1\<lparr>numbers_shift := n\<rparr>)
                   (calculateEffectiveShift (shift_amount o1) (int (length ORIG_NUMBERS)))
            else Some o1);
     o3 \<leftarrow> (if enc_puncts o2
            then map_option (\<lambda>n. o2\<lparr>puncts_shift := n\<rparr>)
                   (calculateEffectiveShift (shift_amount o2) (int (length ORIG_PUNCTS)))
            else Some o2);
     let shifted_upper = cshift ORIG_UPPER (effective_shift o3);
     let shifted_lower = cshift ORIG_LOWER (effective_shift o3);
     let shifted_numbers = cshift ORIG_NUMBERS (numbers_shift o3);
     let shifted_puncts = cshift ORIG_PUNCTS (puncts_shift o3);
     let d1 = dict_store ORIG_UPPER shifted_upper (length shifted_upper) (cipher_dict o3);
     let d2 = dict_store ORIG_LOWER shifted_lower (length shifted_lower) d1;
     let d3 = dict_store ORIG_NUMBERS shifted_numbers (length shifted_numbers) d2;
     let d4 = dict_store ORIG_PUNCTS shifted_puncts (length shifted_puncts) d3;
     Some (o3\<lparr>cipher_dict := d4\<rparr>)
   }"

section \<open>The deciphering program: options and dictionary\<close>

text \<open>
  \<open>struct DecipherCtrlOpts\<close> of ShiftDecipher.cpp. Its fields that share a name with a
  field of \<open>CipherOptions\<close> carry the suffix \<open>_d\<close>. The flags are a \<open>std::bitset<8>\<close>,
  an \<open>8 word\<close> here; position 0 is the least significant bit, so the initial value
  \<open>0b01000000\<close> has position 6 set and no other.
\<close>

record DecipherCtrlOpts =
  program_name_d :: string
  prog_name_stripped_d :: string
  infilename_d :: string
  outfilename_d :: string
  orig_shift_len :: int
  reduced_shift_len :: int
  digits_shift_len :: int
  puncts_shift_len :: int
  cipher_dict_d :: chrdict
  nbytes_file_d :: nat
  decipher_flags :: "8 word"

definition DecipherCtrlOpts_default :: DecipherCtrlOpts where
  "DecipherCtrlOpts_default =
     \<lparr> program_name_d = [], prog_name_stripped_d = [], infilename_d = [], outfilename_d = [],
       orig_shift_len = 5, reduced_shift_len = 5, digits_shift_len = 0, puncts_shift_len = 0,
       cipher_dict_d = Map.empty, nbytes_file_d = 0, decipher_flags = 64 \<rparr>"

text \<open>\<open>flags[i] = b\<close> and the test \<open>flags[i]\<close> of the bitset.\<close>

definition flag_assign :: "8 word \<Rightarrow> nat \<Rightarrow> bool \<Rightarrow> 8 word" where
  "flag_assign w i b = (if b then set_bit i w else unset_bit i w)"

definition flag_test :: "8 word \<Rightarrow> nat \<Rightarrow> bool" where
  "flag_test w i = bit w i"

definition generateCipherDict_d :: "DecipherCtrlOpts \<Rightarrow> DecipherCtrlOpts option" where
  "generateCipherDict_d ciphopts = do {
     r \<leftarrow> calcReducedShift (orig_shift_len ciphopts) 26;
     let o1 = ciphopts\<lparr>reduced_shift_len := r\<rparr>;
     o2 \<leftarrow> (if flag_test (decipher_flags o1) 2 = True
            then map_option (\<lambda>n. o1\<lparr>digits_shift_len := n\<rparr>)
                   (calcReducedShift (orig_shift_len o1) (int (length ORIG_DIGITS)))
            else Some o1);
     o3 \<leftarrow> (if flag_test (decipher_flags o2) 3 = True
            then map_option (\<lambda>n. o2\<lparr>puncts_shift_len := n\<rparr>)
                   (calcReducedShift (orig_shift_len o2) (int (length ORIG_PUNCTUATION_SYMBOLS)))
            else Some o2);
     let shifted_uppercase = cshift ORIG_UPPERCASE (reduced_shift_len o3);
     let shifted_lowercase = cshift ORIG_LOWERCASE (reduced_shift_len o3);
     let shifted_digits = cshift ORIG_DIGITS (digits_shift_len o3);
     let shifted_puncts = cshift ORIG_PUNCTUATION_SYMBOLS (puncts_shift_len o3);
     let d1 = dict_store shifted_uppercase ORIG_UPPERCASE (length shifted_uppercase) (cipher_dict_d o3);
     let d2 = dict_store shifted_lowercase ORIG_LOWERCASE (length shifted_lowercase) d1;
     let d3 = dict_store shifted_digits ORIG_DIGITS (length shifted_digits) d2;
     let d4 = dict_store shifted_puncts ORIG_PUNCTUATION_SYMBOLS (length shifted_puncts) d3;
     Some (o3\<lparr>cipher_dict_d := d4\<rparr>)
   }"

section \<open>The stream transform\<close>

text \<open>
  The inner loop of \<open>encipherFileText\<close> and \<open>decipherFileText\<close> over one line: a byte
  that is a key of the dictionary is replaced by its value, any other byte is copied.
  The result is the output line and the number of bytes read.
\<close>

definition transform_line :: "chrdict \<Rightarrow> string \<Rightarrow> string \<times> nat" where
  "transform_line d origstr =
     fold (\<lambda>n (outstr, num).
             (if origstr ! n \<in> dom d then outstr @ [the (d (origstr ! n))]
              else outstr @ [origstr ! n], num + 1))
          [0..<length origstr] ([], 0)"

section \<open>Exceptions, outcomes and library functions\<close>

text \<open>
  The exceptions that the programs throw or let pass. The message of an exception thrown
  by the standard library is implementation-defined; the model stores the name of the
  throwing function. A function that mutates the options through its pointer and may
  throw has an outcome: it returns a value, or throws, in both cases with the options as
  they are at that moment, or its behaviour is undefined (reading the front of an empty
  \<open>std::deque\<close>, an overflowing \<open>int\<close>). Writing to the console is not modelled.
\<close>

datatype exn = invalid_argument string | out_of_range string | filesystem_error string string

datatype ('r, 's) outcome = Return 'r 's | Throw exn 's | Undefined

text \<open>
  \<open>std::vector::at\<close> (\<open>None\<close>: it throws \<open>std::out_of_range\<close>),
  \<open>std::string::find_last_of\<close> (\<open>None\<close>: \<open>npos\<close>, the largest \<open>size_t\<close>) with the test
  \<open>find_last_of(c) > 0\<close>, \<open>path::filename\<close> on a POSIX path, and the two messages built
  with \<open>std::format\<close>.
\<close>

definition at :: "'a list \<Rightarrow> nat \<Rightarrow> 'a option" where
  "at xs n = (if n < length xs then Some (xs ! n) else None)"

definition find_last_of :: "string \<Rightarrow> char \<Rightarrow> nat option" where
  "find_last_of s c =
     (case filter (\<lambda>i. s ! i = c) [0..<length s] of [] \<Rightarrow> None | i # is \<Rightarrow> Some (last (i # is)))"

definition find_last_of_gt_0 :: "string \<Rightarrow> char \<Rightarrow> bool" where
  "find_last_of_gt_0 s c = (case find_last_of s c of None \<Rightarrow> True | Some i \<Rightarrow> 0 < i)"

definition filename :: "string \<Rightarrow> string" where
  "filename p = rev (takeWhile (\<lambda>c. c \<noteq> CHR ''/'') (rev p))"

definition ia_errmsg :: "string \<Rightarrow> string" where
  "ia_errmsg curropt =
     [CHR 0x0A] @ ''Invalid argument ('' @ curropt
       @ '') used. Please see HELP with -h or --help option.'' @ [CHR 0x0A]"

definition sco_errmsg :: "char \<Rightarrow> string \<Rightarrow> string" where
  "sco_errmsg c curropt =
     [CHR 0x0A] @ ''Invalid single-character option ('' @ [c] @ '') within ('' @ curropt
       @ ''). See HELP with -h or --help option.'' @ [CHR 0x0A]"

text \<open>
  \<open>std::stoi(str, nullptr, 10)\<close>: leading white space, an optional sign, then decimal
  digits up to the first other character. No digit: \<open>std::invalid_argument\<close>; a value
  outside \<open>int\<close>: \<open>std::out_of_range\<close>.
\<close>

definition isspace :: "char \<Rightarrow> bool" where
  "isspace c \<longleftrightarrow> c \<in> {CHR '' '', CHR 0x09, CHR 0x0A, CHR 0x0B, CHR 0x0C, CHR 0x0D}"

definition isdigit :: "char \<Rightarrow> bool" where
  "isdigit c \<longleftrightarrow> c \<in> set ''0123456789''"

definition digit_value :: "char \<Rightarrow> int" where
  "digit_value c = int (of_char c) - 48"

definition digits_value :: "string \<Rightarrow> int" where
  "digits_value ds = fold (\<lambda>c v. 10 * v + digit_value c) ds 0"

definition stoi :: "string \<Rightarrow> exn + int" where
  "stoi str =
     (let s1 = dropWhile isspace str;
          neg = (s1 \<noteq> [] \<and> hd s1 = CHR ''-'');
          s2 = (if s1 \<noteq> [] \<and> (hd s1 = CHR ''-'' \<or> hd s1 = CHR ''+'') then tl s1 else s1);
          ds = takeWhile isdigit s2;
          v = (if neg then - digits_value ds else digits_value ds)
      in if ds = [] then Inl (invalid_argument ''stoi'')
         else if is_int v then Inr v
         else Inl (out_of_range ''stoi''))"

section \<open>The enciphering program: command line\<close>

text \<open>
  \<open>parseCommandLine\<close> of the enciphering program. The \<open>for\<close> loop over the characters
  of a combined single-character token runs over the characters after the first one; it
  carries \<open>parse_results\<close> and \<open>opt_number\<close>, which the case \<open>'h'\<close> assigns.
  \<open>parseCommandLine_body\<close> is one pass through the body of the \<open>while\<close> loop.
\<close>

fun parseCommandLine_for ::
  "string \<Rightarrow> nat \<Rightarrow> string \<Rightarrow> int \<Rightarrow> nat \<Rightarrow> CipherOptions \<Rightarrow> (int \<times> nat, CipherOptions) outcome"
where
  "parseCommandLine_for curropt sz [] parse_results opt_number ciphopts =
     Return (parse_results, opt_number) ciphopts"
| "parseCommandLine_for curropt sz (c # cs) parse_results opt_number ciphopts =
     (if c \<in> {CHR ''a'', CHR ''l'', CHR ''n'', CHR ''p'', CHR ''h''} then
        (if c = CHR ''a'' then
           parseCommandLine_for curropt sz cs parse_results opt_number
             (ciphopts\<lparr>enc_numbers := True, enc_puncts := True\<rparr>)
         else if c = CHR ''n'' then
           parseCommandLine_for curropt sz cs parse_results opt_number
             (ciphopts\<lparr>enc_numbers := True\<rparr>)
         else if c = CHR ''p'' then
           parseCommandLine_for curropt sz cs parse_results opt_number
             (ciphopts\<lparr>enc_puncts := True\<rparr>)
         else if c = CHR ''l'' then
           parseCommandLine_for curropt sz cs parse_results opt_number
             (ciphopts\<lparr>display_log_info := True\<rparr>)
         else if c = CHR ''h'' then
           parseCommandLine_for curropt sz cs 1 sz ciphopts
         else parseCommandLine_for curropt sz cs parse_results opt_number ciphopts)
      else
        Throw (invalid_argument (sco_errmsg c curropt))
          (ciphopts\<lparr>display_log_info := False, enc_numbers := False, enc_puncts := False\<rparr>))"

definition parseCommandLine_body ::
  "string list \<Rightarrow> nat \<Rightarrow> int \<Rightarrow> CipherOptions \<Rightarrow> (int \<times> nat, CipherOptions) outcome"
where
  "parseCommandLine_body usr_cmdln opt_number parse_results ciphopts =
     (let curropt = usr_cmdln ! opt_number in
      if curropt = ''-i'' \<or> curropt = ''--ifile'' then
        (case at usr_cmdln (opt_number + 1) of
           None \<Rightarrow> Throw (out_of_range ''vector::at'') ciphopts
         | Some v \<Rightarrow> Return (parse_results, opt_number + 2) (ciphopts\<lparr>infilename := v\<rparr>))
      else if curropt = ''-o'' \<or> curropt = ''--ofile'' then
        (case at usr_cmdln (opt_number + 1) of
           None \<Rightarrow> Throw (out_of_range ''vector::at'') ciphopts
         | Some v \<Rightarrow> Return (parse_results, opt_number + 2)
                      (ciphopts\<lparr>outfilename := v, use_default_oname := False\<rparr>))
      else if curropt = ''-s'' \<or> curropt = ''--shift-amount'' then
        (case at usr_cmdln (opt_number + 1) of
           None \<Rightarrow> Throw (out_of_range ''vector::at'') ciphopts
         | Some currarg \<Rightarrow>
             (case stoi currarg of
                Inl e \<Rightarrow> Throw e ciphopts
              | Inr k \<Rightarrow> Return (parse_results, opt_number + 2) (ciphopts\<lparr>shift_amount := k\<rparr>)))
      else if curropt = ''--shift-nums'' then
        Return (parse_results, opt_number + 1) (ciphopts\<lparr>enc_numbers := True\<rparr>)
      else if curropt = ''--shift-puncts'' then
        Return (parse_results, opt_number + 1) (ciphopts\<lparr>enc_puncts := True\<rparr>)
      else if curropt = ''--shift-all'' then
        Return (parse_results, opt_number + 1) (ciphopts\<lparr>enc_numbers := True, enc_puncts := True\<rparr>)
      else if curropt = ''--help'' then
        Return (1, length usr_cmdln) ciphopts
      else if curropt = ''--show-log'' then
        Return (parse_results, opt_number + 1) (ciphopts\<lparr>display_log_info := True\<rparr>)
      else if find_last_of_gt_0 curropt CHR ''-'' then
        Throw (invalid_argument (ia_errmsg curropt)) ciphopts
      else
        (case parseCommandLine_for curropt (length usr_cmdln) (drop 1 curropt)
                parse_results opt_number ciphopts of
           Return (pr, n) opts \<Rightarrow> Return (pr, n + 1) opts
         | Throw e opts \<Rightarrow> Throw e opts
         | Undefined \<Rightarrow> Undefined))"

text \<open>Every pass through the body advances \<open>opt_number\<close>, so the loop terminates.\<close>

lemma parseCommandLine_for_advances:
  "parseCommandLine_for curropt sz cs pr n opts = Return (pr', n') opts' \<Longrightarrow> n' = n \<or> n' = sz"
  by (induction curropt sz cs pr n opts rule: parseCommandLine_for.induct)
    (auto split: if_splits)

lemma parseCommandLine_body_advances:
  assumes "parseCommandLine_body usr_cmdln n pr opts = Return (pr', n') opts'"
    and "n < length usr_cmdln"
  shows "n < n'"
  using assms
  by (auto simp: parseCommandLine_body_def Let_def
      split: if_splits option.splits sum.splits outcome.splits
      dest!: parseCommandLine_for_advances)

function parseCommandLine_while ::
  "string list \<Rightarrow> nat \<Rightarrow> int \<Rightarrow> CipherOptions \<Rightarrow> (int, CipherOptions) outcome"
where
  "parseCommandLine_while usr_cmdln opt_number parse_results ciphopts =
     (if opt_number < length usr_cmdln then
        (case parseCommandLine_body usr_cmdln opt_number parse_results ciphopts of
           Return (pr, n) opts \<Rightarrow> parseCommandLine_while usr_cmdln n pr opts
         | Throw e opts \<Rightarrow> Throw e opts
         | Undefined \<Rightarrow> Undefined)
      else Return parse_results ciphopts)"
  by pat_completeness auto
termination
proof (relation "measure (\<lambda>(usr_cmdln, opt_number, parse_results, ciphopts).
         length usr_cmdln - opt_number)")
  show "wf (measure (\<lambda>(usr_cmdln, opt_number, parse_results, ciphopts).
         length usr_cmdln - opt_number))"
    by simp
next
  fix usr_cmdln :: "string list" and opt_number :: nat and parse_results :: int
    and ciphopts :: CipherOptions and x11 x12 x y
  assume "opt_number < length usr_cmdln"
    and "parseCommandLine_body usr_cmdln opt_number parse_results ciphopts = Return x11 x12"
    and "(x, y) = x11"
  then show "((usr_cmdln, y, x, x12), usr_cmdln, opt_number, parse_results, ciphopts)
       \<in> measure (\<lambda>(usr_cmdln, opt_number, parse_results, ciphopts).
         length usr_cmdln - opt_number)"
    using parseCommandLine_body_advances [of usr_cmdln opt_number parse_results ciphopts x y x12]
    by auto
qed

declare parseCommandLine_while.simps [simp del]

definition parseCommandLine :: "string list \<Rightarrow> CipherOptions \<Rightarrow> (int, CipherOptions) outcome" where
  "parseCommandLine usr_cmdln ciphopts =
     (case at usr_cmdln 0 of
        None \<Rightarrow> Throw (out_of_range ''vector::at'') ciphopts
      | Some name \<Rightarrow>
          (let opts = ciphopts\<lparr>program_name := program_name ciphopts @ name,
                        prog_name_stripped := prog_name_stripped ciphopts @ filename name\<rparr>
           in if length usr_cmdln = 1 then Return 1 opts
              else parseCommandLine_while usr_cmdln 1 0 opts))"

section \<open>The deciphering program: command line\<close>

text \<open>
  \<open>parseSingleCharOptions\<close> and \<open>parseCommandLine\<close> of ShiftDecipher.cpp. The command
  line is copied into a \<open>std::deque\<close>, a list here, and consumed from the front;
  \<open>front()\<close> on an empty deque is undefined behaviour. The \<open>while\<close> loop of
  \<open>parseSingleCharOptions\<close> runs over the characters after the first one and does not
  stop at an unknown character.
\<close>

datatype DECIPHER_PROG_CODES = CMDLN_USER_ERROR | CMDLN_OK | CMDLN_HELP_REQ | CMDLN_USAGE_REQ

fun parseSingleCharOptions_while ::
  "string \<Rightarrow> DECIPHER_PROG_CODES \<Rightarrow> DecipherCtrlOpts \<Rightarrow> DECIPHER_PROG_CODES \<times> DecipherCtrlOpts"
where
  "parseSingleCharOptions_while [] parse_results ciphopts = (parse_results, ciphopts)"
| "parseSingleCharOptions_while (c # cs) parse_results ciphopts =
     (if c = CHR ''a'' then
        parseSingleCharOptions_while cs parse_results
          (ciphopts\<lparr>decipher_flags :=
             flag_assign (flag_assign (decipher_flags ciphopts) 2 True) 3 True\<rparr>)
      else if c = CHR ''n'' then
        parseSingleCharOptions_while cs parse_results
          (ciphopts\<lparr>decipher_flags := flag_assign (decipher_flags ciphopts) 2 True\<rparr>)
      else if c = CHR ''p'' then
        parseSingleCharOptions_while cs parse_results
          (ciphopts\<lparr>decipher_flags := flag_assign (decipher_flags ciphopts) 3 True\<rparr>)
      else if c = CHR ''l'' then
        parseSingleCharOptions_while cs parse_results
          (ciphopts\<lparr>decipher_flags := flag_assign (decipher_flags ciphopts) 7 True\<rparr>)
      else if c = CHR ''h'' then
        parseSingleCharOptions_while cs CMDLN_HELP_REQ
          (ciphopts\<lparr>decipher_flags := flag_assign (decipher_flags ciphopts) 0 True\<rparr>)
      else
        parseSingleCharOptions_while cs CMDLN_USER_ERROR
          (ciphopts\<lparr>decipher_flags :=
             flag_assign (flag_assign (flag_assign (flag_assign (decipher_flags ciphopts)
               2 False) 3 False) 7 False) 0 False\<rparr>))"

definition parseSingleCharOptions ::
  "string \<Rightarrow> DecipherCtrlOpts \<Rightarrow> DECIPHER_PROG_CODES \<times> DecipherCtrlOpts"
where
  "parseSingleCharOptions cmdlnSingles ciphopts =
     (let parse_results =
            (if find_last_of_gt_0 cmdlnSingles CHR ''-'' then CMDLN_USER_ERROR else CMDLN_OK)
      in if parse_results = CMDLN_OK
         then parseSingleCharOptions_while (drop 1 cmdlnSingles) parse_results ciphopts
         else (parse_results, ciphopts))"

definition parseCommandLine_body_d ::
  "string \<Rightarrow> string list \<Rightarrow> DECIPHER_PROG_CODES \<Rightarrow> DecipherCtrlOpts
     \<Rightarrow> (DECIPHER_PROG_CODES \<times> string list, DecipherCtrlOpts) outcome"
where
  "parseCommandLine_body_d curr_arg cmdln_deq parse_results ciphopts =
     (if curr_arg = ''-i'' \<or> curr_arg = ''--ifile'' then
        (case cmdln_deq of
           [] \<Rightarrow> Undefined
         | v # deq \<Rightarrow> Return (parse_results, deq) (ciphopts\<lparr>infilename_d := v\<rparr>))
      else if curr_arg = ''-o'' \<or> curr_arg = ''--ofile'' then
        (case cmdln_deq of
           [] \<Rightarrow> Undefined
         | v # deq \<Rightarrow>
             Return (parse_results, deq)
               (ciphopts\<lparr>outfilename_d := v,
                  decipher_flags := flag_assign (decipher_flags ciphopts) 1 False\<rparr>))
      else if curr_arg = ''-s'' \<or> curr_arg = ''--shift-amount'' then
        (case cmdln_deq of
           [] \<Rightarrow> Undefined
         | tmp_int_str # deq \<Rightarrow>
             (case stoi tmp_int_str of
                Inl e \<Rightarrow> Throw e ciphopts
              | Inr k \<Rightarrow> Return (parse_results, deq) (ciphopts\<lparr>orig_shift_len := k\<rparr>)))
      else if curr_arg = ''--shift-numbers'' then
        Return (parse_results, cmdln_deq)
          (ciphopts\<lparr>decipher_flags := flag_assign (decipher_flags ciphopts) 2 True\<rparr>)
      else if curr_arg = ''--shift-puncts'' then
        Return (parse_results, cmdln_deq)
          (ciphopts\<lparr>decipher_flags := flag_assign (decipher_flags ciphopts) 3 True\<rparr>)
      else if curr_arg = ''--shift-all'' then
        Return (parse_results, cmdln_deq)
          (ciphopts\<lparr>decipher_flags :=
             flag_assign (flag_assign (decipher_flags ciphopts) 2 True) 3 True\<rparr>)
      else if curr_arg = ''--help'' then
        Return (CMDLN_HELP_REQ, [])
          (ciphopts\<lparr>decipher_flags := flag_assign (decipher_flags ciphopts) 0 True\<rparr>)
      else if curr_arg = ''--show-log'' then
        Return (parse_results, cmdln_deq)
          (ciphopts\<lparr>decipher_flags := flag_assign (decipher_flags ciphopts) 7 True\<rparr>)
      else
        (case parseSingleCharOptions curr_arg ciphopts of
           (CMDLN_USER_ERROR, opts) \<Rightarrow> Throw (invalid_argument (ia_errmsg curr_arg)) opts
         | (CMDLN_HELP_REQ, opts) \<Rightarrow> Return (CMDLN_HELP_REQ, []) opts
         | (CMDLN_USAGE_REQ, opts) \<Rightarrow> Return (CMDLN_USAGE_REQ, []) opts
         | (CMDLN_OK, opts) \<Rightarrow> Return (CMDLN_OK, cmdln_deq) opts))"

text \<open>A pass through the body never makes the deque longer than its tail.\<close>

lemma parseCommandLine_body_d_shorter:
  assumes "parseCommandLine_body_d curr_arg cmdln_deq pr opts = Return (pr', deq') opts'"
  shows "length deq' \<le> length cmdln_deq"
  using assms
  by (auto simp: parseCommandLine_body_d_def
      split: if_splits list.splits sum.splits prod.splits DECIPHER_PROG_CODES.splits)

function parseCommandLine_while_d ::
  "string list \<Rightarrow> DECIPHER_PROG_CODES \<Rightarrow> DecipherCtrlOpts
     \<Rightarrow> (DECIPHER_PROG_CODES, DecipherCtrlOpts) outcome"
where
  "parseCommandLine_while_d cmdln_deq parse_results ciphopts =
     (case cmdln_deq of
        [] \<Rightarrow> Return parse_results ciphopts
      | curr_arg # deq \<Rightarrow>
          (case parseCommandLine_body_d curr_arg deq parse_results ciphopts of
             Return (pr, deq') opts \<Rightarrow> parseCommandLine_while_d deq' pr opts
           | Throw e opts \<Rightarrow> Throw e opts
           | Undefined \<Rightarrow> Undefined))"
  by pat_completeness auto
termination
proof (relation "measure (\<lambda>(cmdln_deq, parse_results, ciphopts). length cmdln_deq)")
  show "wf (measure (\<lambda>(cmdln_deq, parse_results, ciphopts). length cmdln_deq))"
    by simp
next
  fix cmdln_deq :: "string list" and parse_results :: DECIPHER_PROG_CODES
    and ciphopts :: DecipherCtrlOpts and x21 x22 x11 x12 x y
  assume "cmdln_deq = x21 # x22"
    and "parseCommandLine_body_d x21 x22 parse_results ciphopts = Return x11 x12"
    and "(x, y) = x11"
  then show "((y, x, x12), cmdln_deq, parse_results, ciphopts)
       \<in> measure (\<lambda>(cmdln_deq, parse_results, ciphopts). length cmdln_deq)"
    using parseCommandLine_body_d_shorter [of x21 x22 parse_results ciphopts x y x12]
    by auto
qed

declare parseCommandLine_while_d.simps [simp del]

definition parseCommandLine_d ::
  "string list \<Rightarrow> DecipherCtrlOpts \<Rightarrow> (DECIPHER_PROG_CODES, DecipherCtrlOpts) outcome"
where
  "parseCommandLine_d usr_cmdln ciphopts =
     (case usr_cmdln of
        [] \<Rightarrow> Undefined
      | curr_arg # cmdln_deq \<Rightarrow>
          (let opts = ciphopts\<lparr>program_name_d := curr_arg,
                        prog_name_stripped_d := filename curr_arg\<rparr>
           in if cmdln_deq = [] then Return CMDLN_USAGE_REQ opts
              else parseCommandLine_while_d cmdln_deq CMDLN_OK opts))"

section \<open>The second deciphering program: command line\<close>

text \<open>
  The second program of ShiftDecipher.cpp has the options both as \<open>bool\<close> fields and as
  a bitset, and parses the command line by index, as the enciphering program does. Its
  fields carry the suffix \<open>_b\<close>.
\<close>

record DecipherCtrlOpts_b =
  program_name_b :: string
  prog_name_stripped_b :: string
  infilename_b :: string
  outfilename_b :: string
  use_default_oname_b :: bool
  orig_shift_len_b :: int
  reduced_shift_len_b :: int
  digits_shift_len_b :: int
  puncts_shift_len_b :: int
  dec_numbers :: bool
  dec_puncts :: bool
  cipher_dict_b :: chrdict
  nbytes_file_b :: nat
  display_log_info_b :: bool
  decipher_flags_b :: "8 word"

definition DecipherCtrlOpts_b_default :: DecipherCtrlOpts_b where
  "DecipherCtrlOpts_b_default =
     \<lparr> program_name_b = [], prog_name_stripped_b = [], infilename_b = [], outfilename_b = [],
       use_default_oname_b = True, orig_shift_len_b = 5, reduced_shift_len_b = 5,
       digits_shift_len_b = 0, puncts_shift_len_b = 0, dec_numbers = False, dec_puncts = False,
       cipher_dict_b = Map.empty, nbytes_file_b = 0, display_log_info_b = False,
       decipher_flags_b = 64 \<rparr>"

fun parseCommandLine_for_b ::
  "string \<Rightarrow> nat \<Rightarrow> string \<Rightarrow> int \<Rightarrow> nat \<Rightarrow> DecipherCtrlOpts_b
     \<Rightarrow> (int \<times> nat, DecipherCtrlOpts_b) outcome"
where
  "parseCommandLine_for_b curropt sz [] parse_results opt_number ciphopts =
     Return (parse_results, opt_number) ciphopts"
| "parseCommandLine_for_b curropt sz (c # cs) parse_results opt_number ciphopts =
     (if c \<in> {CHR ''a'', CHR ''l'', CHR ''n'', CHR ''p'', CHR ''h''} then
        (if c = CHR ''a'' then
           parseCommandLine_for_b curropt sz cs parse_results opt_number
             (ciphopts\<lparr>dec_numbers := True, dec_puncts := True\<rparr>)
         else if c = CHR ''n'' then
           parseCommandLine_for_b curropt sz cs parse_results opt_number
             (ciphopts\<lparr>dec_numbers := True\<rparr>)
         else if c = CHR ''p'' then
           parseCommandLine_for_b curropt sz cs parse_results opt_number
             (ciphopts\<lparr>dec_puncts := True\<rparr>)
         else if c = CHR ''l'' then
           parseCommandLine_for_b curropt sz cs parse_results opt_number
             (ciphopts\<lparr>display_log_info_b := True\<rparr>)
         else if c = CHR ''h'' then
           parseCommandLine_for_b curropt sz cs 1 sz ciphopts
         else parseCommandLine_for_b curropt sz cs parse_results opt_number ciphopts)
      else
        Throw (invalid_argument (sco_errmsg c curropt))
          (ciphopts\<lparr>display_log_info_b := False, dec_numbers := False, dec_puncts := False,
             decipher_flags_b :=
               flag_assign (flag_assign (flag_assign (decipher_flags_b ciphopts)
                 7 False) 2 False) 3 False\<rparr>))"

definition parseCommandLine_body_b ::
  "string list \<Rightarrow> nat \<Rightarrow> int \<Rightarrow> DecipherCtrlOpts_b \<Rightarrow> (int \<times> nat, DecipherCtrlOpts_b) outcome"
where
  "parseCommandLine_body_b usr_cmdln opt_number parse_results ciphopts =
     (let curropt = usr_cmdln ! opt_number in
      if curropt = ''-i'' \<or> curropt = ''--ifile'' then
        (case at usr_cmdln (opt_number + 1) of
           None \<Rightarrow> Throw (out_of_range ''vector::at'') ciphopts
         | Some v \<Rightarrow> Return (parse_results, opt_number + 2) (ciphopts\<lparr>infilename_b := v\<rparr>))
      else if curropt = ''-o'' \<or> curropt = ''--ofile'' then
        (case at usr_cmdln (opt_number + 1) of
           None \<Rightarrow> Throw (out_of_range ''vector::at'') ciphopts
         | Some v \<Rightarrow> Return (parse_results, opt_number + 2)
                      (ciphopts\<lparr>outfilename_b := v, use_default_oname_b := False\<rparr>))
      else if curropt = ''-s'' \<or> curropt = ''--shift-amount'' then
        (case at usr_cmdln (opt_number + 1) of
           None \<Rightarrow> Throw (out_of_range ''vector::at'') ciphopts
         | Some currarg \<Rightarrow>
             (case stoi currarg of
                Inl e \<Rightarrow> Throw e ciphopts
              | Inr k \<Rightarrow> Return (parse_results, opt_number + 2)
                          (ciphopts\<lparr>orig_shift_len_b := k\<rparr>)))
      else if curropt = ''--shift-nums'' then
        Return (parse_results, opt_number + 1) (ciphopts\<lparr>dec_numbers := True\<rparr>)
      else if curropt = ''--shift-puncts'' then
        Return (parse_results, opt_number + 1) (ciphopts\<lparr>dec_puncts := True\<rparr>)
      else if curropt = ''--shift-all'' then
        Return (parse_results, opt_number + 1) (ciphopts\<lparr>dec_numbers := True, dec_puncts := True\<rparr>)
      else if curropt = ''--help'' then
        Return (1, length usr_cmdln) ciphopts
      else if curropt = ''--show-log'' then
        Return (parse_results, opt_number + 1) (ciphopts\<lparr>display_log_info_b := True\<rparr>)
      else if find_last_of_gt_0 curropt CHR ''-'' then
        Throw (invalid_argument (ia_errmsg curropt)) ciphopts
      else
        (case parseCommandLine_for_b curropt (length usr_cmdln) (drop 1 curropt)
                parse_results opt_number ciphopts of
           Return (pr, n) opts \<Rightarrow> Return (pr, n + 1) opts
         | Throw e opts \<Rightarrow> Throw e opts
         | Undefined \<Rightarrow> Undefined))"

lemma parseCommandLine_for_b_advances:
  "parseCommandLine_for_b curropt sz cs pr n opts = Return (pr', n') opts' \<Longrightarrow> n' = n \<or> n' = sz"
  by (induction curropt sz cs pr n opts rule: parseCommandLine_for_b.induct)
    (auto split: if_splits)

lemma parseCommandLine_body_b_advances:
  assumes "parseCommandLine_body_b usr_cmdln n pr opts = Return (pr', n') opts'"
    and "n < length usr_cmdln"
  shows "n < n'"
  using assms
  by (auto simp: parseCommandLine_body_b_def Let_def
      split: if_splits option.splits sum.splits outcome.splits
      dest!: parseCommandLine_for_b_advances)

function parseCommandLine_while_b ::
  "string list \<Rightarrow> nat \<Rightarrow> int \<Rightarrow> DecipherCtrlOpts_b \<Rightarrow> (int, DecipherCtrlOpts_b) outcome"
where
  "parseCommandLine_while_b usr_cmdln opt_number parse_results ciphopts =
     (if opt_number < length usr_cmdln then
        (case parseCommandLine_body_b usr_cmdln opt_number parse_results ciphopts of
           Return (pr, n) opts \<Rightarrow> parseCommandLine_while_b usr_cmdln n pr opts
         | Throw e opts \<Rightarrow> Throw e opts
         | Undefined \<Rightarrow> Undefined)
      else Return parse_results ciphopts)"
  by pat_completeness auto
termination
proof (relation "measure (\<lambda>(usr_cmdln, opt_number, parse_results, ciphopts).
         length usr_cmdln - opt_number)")
  show "wf (measure (\<lambda>(usr_cmdln, opt_number, parse_results, ciphopts).
         length usr_cmdln - opt_number))"
    by simp
next
  fix usr_cmdln :: "string list" and opt_number :: nat and parse_results :: int
    and ciphopts :: DecipherCtrlOpts_b and x11 x12 x y
  assume "opt_number < length usr_cmdln"
    and "parseCommandLine_body_b usr_cmdln opt_number parse_results ciphopts = Return x11 x12"
    and "(x, y) = x11"
  then show "((usr_cmdln, y, x, x12), usr_cmdln, opt_number, parse_results, ciphopts)
       \<in> measure (\<lambda>(usr_cmdln, opt_number, parse_results, ciphopts).
         length usr_cmdln - opt_number)"
    using parseCommandLine_body_b_advances [of usr_cmdln opt_number parse_results ciphopts x y x12]
    by auto
qed

declare parseCommandLine_while_b.simps [simp del]

definition parseCommandLine_b ::
  "string list \<Rightarrow> DecipherCtrlOpts_b \<Rightarrow> (int, DecipherCtrlOpts_b) outcome"
where
  "parseCommandLine_b usr_cmdln ciphopts =
     (case at usr_cmdln 0 of
        None \<Rightarrow> Throw (out_of_range ''vector::at'') ciphopts
      | Some name \<Rightarrow>
          (let opts = ciphopts\<lparr>program_name_b := program_name_b ciphopts @ name,
                        prog_name_stripped_b := prog_name_stripped_b ciphopts @ filename name\<rparr>
           in if length usr_cmdln = 1 then Return 1 opts
              else parseCommandLine_while_b usr_cmdln 1 0 opts))"

section \<open>Files and the two programs\<close>

text \<open>
  The file system is a map from paths to contents, with the set of the paths that cannot
  be opened for writing; the empty path cannot be opened. \<open>std::getline\<close> splits the
  content at line feeds, and every output line is written with a line feed. Opening the
  output file truncates it, before the input is read.
\<close>

record fsys =
  files :: "string \<rightharpoonup> string"
  unwritable :: "string set"

definition getlines :: "string \<Rightarrow> string list" where
  "getlines content =
     foldr (\<lambda>c acc. if c = CHR 0x0A then [] # acc
                     else (case acc of [] \<Rightarrow> [[c]] | l # ls \<Rightarrow> (c # l) # ls))
       content []"

definition write_lines :: "string list \<Rightarrow> string" where
  "write_lines outs = concat (map (\<lambda>outstr. outstr @ [CHR 0x0A]) outs)"

definition ofstream_open :: "fsys \<Rightarrow> string \<Rightarrow> bool" where
  "ofstream_open fs path \<longleftrightarrow> path \<noteq> [] \<and> path \<notin> unwritable fs"

definition transform_lines :: "chrdict \<Rightarrow> string list \<Rightarrow> string list \<times> nat" where
  "transform_lines d ls =
     fold (\<lambda>origstr (outs, num_chrs_read).
             (outs @ [fst (transform_line d origstr)],
              num_chrs_read + snd (transform_line d origstr)))
       ls ([], 0)"

definition encipherFileText ::
  "CipherOptions \<Rightarrow> fsys \<Rightarrow> (unit, CipherOptions \<times> fsys) outcome"
where
  "encipherFileText ciphopts fs =
     (if infilename ciphopts \<notin> dom (files fs) then
        Throw (filesystem_error ''Input file not found.'' (infilename ciphopts)) (ciphopts, fs)
      else
        (let fulloname = (if use_default_oname ciphopts then infilename ciphopts @ ''.ciph''
                          else outfilename ciphopts);
             is_open = ofstream_open fs fulloname;
             fs1 = (if is_open then fs\<lparr>files := (files fs)(fulloname \<mapsto> [])\<rparr> else fs);
             res = transform_lines (cipher_dict ciphopts)
                     (getlines (the (files fs1 (infilename ciphopts))));
             fs2 = (if is_open then fs1\<lparr>files := (files fs1)(fulloname \<mapsto> write_lines (fst res))\<rparr>
                    else fs1)
         in Return () (ciphopts\<lparr>nbytes_file := nbytes_file ciphopts + snd res\<rparr>, fs2)))"

definition decipherFileText ::
  "DecipherCtrlOpts \<Rightarrow> fsys \<Rightarrow> (unit, DecipherCtrlOpts \<times> fsys) outcome"
where
  "decipherFileText ciphopts fs =
     (if infilename_d ciphopts \<notin> dom (files fs) then
        Throw (filesystem_error ''Deciphering text file problem.'' (infilename_d ciphopts))
          (ciphopts, fs)
      else
        (let opts = (if flag_test (decipher_flags ciphopts) 1 = True
                     then ciphopts\<lparr>outfilename_d := infilename_d ciphopts @ ''.dec''\<rparr>
                     else ciphopts)
         in if \<not> ofstream_open fs (outfilename_d opts) then
              Throw (filesystem_error ''Deciphering text file problem.'' (outfilename_d opts))
                (opts, fs)
            else
              (let fs1 = fs\<lparr>files := (files fs)(outfilename_d opts \<mapsto> [])\<rparr>;
                   res = transform_lines (cipher_dict_d opts)
                           (getlines (the (files fs1 (infilename_d opts))));
                   fs2 = fs1\<lparr>files := (files fs1)(outfilename_d opts \<mapsto> write_lines (fst res))\<rparr>
               in Return () (opts\<lparr>nbytes_file_d := nbytes_file_d opts + snd res\<rparr>, fs2))))"

text \<open>
  The two \<open>main\<close> functions: the exit status and the file system after the run, or
  \<open>None\<close> when the behaviour of the run is undefined. Every handler of an exception
  gives the exit status 1.
\<close>

definition main :: "string list \<Rightarrow> fsys \<Rightarrow> (int \<times> fsys) option" where
  "main raw_cmdln fs =
     (case parseCommandLine raw_cmdln CipherOptions_default of
        Throw e opts \<Rightarrow> Some (1, fs)
      | Undefined \<Rightarrow> None
      | Return parse_res cmdopts \<Rightarrow>
          if parse_res = 1 then Some (0, fs)
          else if parse_res = 0 then
            (case generateCipherDict cmdopts of
               None \<Rightarrow> None
             | Some opts \<Rightarrow>
                 (case encipherFileText opts fs of
                    Throw e (opts', fs') \<Rightarrow> Some (1, fs')
                  | Undefined \<Rightarrow> None
                  | Return u (opts', fs') \<Rightarrow> Some (0, fs')))
          else Some (0, fs))"

definition main_d :: "string list \<Rightarrow> fsys \<Rightarrow> (int \<times> fsys) option" where
  "main_d raw_cmdln fs =
     (case parseCommandLine_d raw_cmdln DecipherCtrlOpts_default of
        Throw e opts \<Rightarrow> Some (1, fs)
      | Undefined \<Rightarrow> None
      | Return parse_res cmdopts \<Rightarrow>
          (case parse_res of
             CMDLN_HELP_REQ \<Rightarrow> Some (0, fs)
           | CMDLN_USAGE_REQ \<Rightarrow> Some (0, fs)
           | CMDLN_USER_ERROR \<Rightarrow> Some (1, fs)
           | CMDLN_OK \<Rightarrow>
               (case generateCipherDict_d cmdopts of
                  None \<Rightarrow> None
                | Some opts \<Rightarrow>
                    (case decipherFileText opts fs of
                       Throw e (opts', fs') \<Rightarrow> Some (1, fs')
                     | Undefined \<Rightarrow> None
                     | Return u (opts', fs') \<Rightarrow> Some (0, fs')))))"

section \<open>The floor-style modulo of the specification\<close>

text \<open>
  The formula \<open>((raw_shift % m) + m) % m\<close> of the specification, with the operators of
  C++: the remainder truncates and the sum must stay in the range of \<open>int\<close>.
\<close>

definition spec_floor_modulo :: "int \<Rightarrow> int \<Rightarrow> int option" where
  "spec_floor_modulo s m = do { a \<leftarrow> int_rem s m; b \<leftarrow> int_add a m; int_rem b m }"

section \<open>Enabled classes\<close>

text \<open>
  The bytes of the classes that a run shifts: the letters always, the digits and the
  punctuation symbols when their option is set.
\<close>

definition enabled_alphabet :: "bool \<Rightarrow> bool \<Rightarrow> char set" where
  "enabled_alphabet numbers puncts =
     set ORIG_UPPER \<union> set ORIG_LOWER \<union> (if numbers then set ORIG_NUMBERS else {})
       \<union> (if puncts then set ORIG_PUNCTS else {})"

section \<open>Properties of the reduced shift\<close>

lemma calcReducedShift_while_mod:
  assumes "reduced_shift < 0" "is_int reduced_shift" "0 < mod_size" "is_int mod_size"
  shows "calcReducedShift_while reduced_shift mod_size = Some (reduced_shift mod mod_size)"
  using assms
proof (induction "nat (- reduced_shift)" arbitrary: reduced_shift rule: less_induct)
  case less
  let ?r = "reduced_shift + mod_size"
  have rng: "is_int ?r"
    using less.prems by (simp add: is_int_def)
  have md: "?r mod mod_size = reduced_shift mod mod_size"
    by simp
  show ?case
  proof (cases "?r < 0")
    case True
    have "calcReducedShift_while ?r mod_size = Some (?r mod mod_size)"
      using less.hyps [of ?r] True rng less.prems by simp
    then show ?thesis
      using less.prems rng md
      by (subst calcReducedShift_while.simps) (simp add: int_add_def)
  next
    case False
    have "calcReducedShift_while ?r mod_size = Some ?r"
      using False by (subst calcReducedShift_while.simps) simp
    moreover have "reduced_shift mod mod_size = ?r"
      using False less.prems md by (metis mod_pos_pos_trivial not_less add.commute add_less_same_cancel2)
    ultimately show ?thesis
      using less.prems rng
      by (subst calcReducedShift_while.simps) (simp add: int_add_def)
  qed
qed


lemma calculateEffectiveShift_while_mod:
  assumes "eff_shift < 0" "is_int eff_shift" "0 < mod_size" "is_int mod_size"
  shows "calculateEffectiveShift_while eff_shift mod_size = Some (eff_shift mod mod_size)"
  using assms
proof (induction "nat (- eff_shift)" arbitrary: eff_shift rule: less_induct)
  case less
  let ?r = "eff_shift + mod_size"
  have rng: "is_int ?r"
    using less.prems by (simp add: is_int_def)
  have md: "?r mod mod_size = eff_shift mod mod_size"
    by simp
  show ?case
  proof (cases "?r < 0")
    case True
    have "calculateEffectiveShift_while ?r mod_size = Some (?r mod mod_size)"
      using less.hyps [of ?r] True rng less.prems by simp
    then show ?thesis
      using less.prems rng md
      by (subst calculateEffectiveShift_while.simps) (simp add: int_add_def)
  next
    case False
    have "calculateEffectiveShift_while ?r mod_size = Some ?r"
      using False by (subst calculateEffectiveShift_while.simps) simp
    moreover have "eff_shift mod mod_size = ?r"
      using False less.prems md by (metis mod_pos_pos_trivial not_less add.commute add_less_same_cancel2)
    ultimately show ?thesis
      using less.prems rng
      by (subst calculateEffectiveShift_while.simps) (simp add: int_add_def)
  qed
qed

lemma calcReducedShift_eq:
  assumes "is_int s" "0 < m" "is_int m"
  shows "calcReducedShift s m = Some (s mod m)"
  using assms calcReducedShift_while_mod [of s m]
  by (auto simp: calcReducedShift_def int_rem_def INT_MIN_def smod_mod_positive)

lemma calculateEffectiveShift_eq:
  assumes "is_int s" "0 < m" "is_int m"
  shows "calculateEffectiveShift s m = Some (s mod m)"
  using assms calculateEffectiveShift_while_mod [of s m]
  by (auto simp: calculateEffectiveShift_def int_rem_def INT_MIN_def smod_mod_positive)

lemma is_int_small: "is_int 26" "is_int 10" "is_int 32"
  by (simp_all add: is_int_def INT_MIN_def INT_MAX_def)

lemma smod_neg_pos:
  assumes "s < 0" "0 < (m::int)"
  shows "s smod m = - ((- s) mod m)"
  using assms by (simp add: smod_int_alt_def)

lemma spec_floor_modulo_eq:
  assumes "is_int s" "0 < m" "m \<le> 32"
  shows "spec_floor_modulo s m = Some (s mod m)"
proof -
  have a: "- m < s smod m \<and> s smod m < m"
  proof (cases "s < 0")
    case True
    have "0 \<le> (- s) mod m \<and> (- s) mod m < m" using assms by simp
    then show ?thesis using True assms by (simp only: smod_neg_pos) linarith
  next
    case False
    have e: "s smod m = s mod m" using False assms by (simp add: smod_mod_positive)
    have "0 \<le> s mod m" "s mod m < m" using assms by simp_all
    then show ?thesis unfolding e using assms by linarith
  qed
  have b: "(s smod m + m) mod m = s mod m"
  proof (cases "s < 0")
    case True
    then show ?thesis using assms by (simp add: smod_neg_pos mod_minus_eq)
  next
    case False
    then show ?thesis using assms by (simp add: smod_mod_positive)
  qed
  have c: "(s smod m + m) smod m = (s smod m + m) mod m"
    using a assms by (intro smod_mod_positive) auto
  have d: "is_int (s smod m + m)"
    using a assms by (simp add: is_int_def INT_MIN_def INT_MAX_def)
  show ?thesis
    using assms a b c d
    by (simp add: spec_floor_modulo_def int_rem_def int_add_def INT_MIN_def)
qed

lemma first_nonneg:
  assumes "s < 0" "0 < (m::int)"
  shows "\<exists>j::nat. s mod m = s + int j * m \<and> (\<forall>i<j. s + int i * m < 0)"
proof -
  define j where "j = nat (- (s div m))"
  have neg: "s div m < 0" using assms by (simp add: div_neg_pos_less0)
  have j: "int j = - (s div m)" using neg by (simp add: j_def)
  have eq: "s mod m = s + int j * m"
    using j by (simp add: minus_div_mult_eq_mod [symmetric])
  have "s + int i * m < 0" if "i < j" for i
  proof -
    have "int i + 1 \<le> int j" using that by simp
    then have "(int i + 1) * m \<le> int j * m" using assms by (simp only: mult_right_mono less_imp_le)
    then have "s + int i * m \<le> s + int j * m - m" by (simp add: algebra_simps)
    also have "\<dots> = s mod m - m" using eq by simp
    also have "\<dots> < 0" using assms by simp
    finally show ?thesis .
  qed
  then show ?thesis using eq by blast
qed

section \<open>Properties of the containers\<close>

lemma upds_nth:
  "distinct ks \<Longrightarrow> length ks = length vs \<Longrightarrow> i < length ks \<Longrightarrow>
   (m(ks [\<mapsto>] vs)) (ks ! i) = Some (vs ! i)"
proof (induction ks arbitrary: vs i m)
  case Nil
  then show ?case by simp
next
  case (Cons k ks)
  then obtain v vs' where vs: "vs = v # vs'"
    by (cases vs) auto
  show ?case
  proof (cases i)
    case 0
    then show ?thesis using Cons.prems vs by simp
  next
    case (Suc j)
    have "((m(k \<mapsto> v))(ks [\<mapsto>] vs')) (ks ! j) = Some (vs' ! j)"
      using Cons.prems vs Suc by (intro Cons.IH) auto
    then show ?thesis using vs Suc by simp
  qed
qed

lemma dict_store_take:
  "k \<le> length keys \<Longrightarrow> k \<le> length vals \<Longrightarrow>
   dict_store keys vals k d = d(take k keys [\<mapsto>] take k vals)"
proof (induction k)
  case 0
  then show ?case by (simp add: dict_store_def)
next
  case (Suc k)
  then show ?case
    by (simp add: dict_store_def take_Suc_conv_app_nth nth_append)
qed

lemma dict_store_upds:
  "length keys = n \<Longrightarrow> length vals = n \<Longrightarrow> dict_store keys vals n d = d(keys [\<mapsto>] vals)"
  using dict_store_take [of n keys vals d] by simp

lemma length_cshift: "length (cshift xs c) = length xs"
  by (simp add: cshift_def)

lemma set_cshift: "set (cshift xs c) = set xs"
  by (simp add: cshift_def)

lemma distinct_cshift: "distinct (cshift xs c) = distinct xs"
  by (simp add: cshift_def)

lemma nth_cshift:
  "i < length xs \<Longrightarrow> cshift xs c ! i = xs ! ((i + nat (c mod int (length xs))) mod length xs)"
  by (auto simp: cshift_def nth_rotate add.commute)

lemma alphabets_distinct:
  "distinct (ORIG_UPPER @ ORIG_LOWER @ ORIG_NUMBERS @ ORIG_PUNCTS)"
  by (simp add: ORIG_UPPER_def ORIG_LOWER_def ORIG_NUMBERS_def ORIG_PUNCTS_def)

lemma alphabets_length:
  "length ORIG_UPPER = 26" "length ORIG_LOWER = 26" "length ORIG_NUMBERS = 10"
  "length ORIG_PUNCTS = 32"
  by (simp_all add: ORIG_UPPER_def ORIG_LOWER_def ORIG_NUMBERS_def ORIG_PUNCTS_def)

lemma alphabets_d:
  "ORIG_UPPERCASE = ORIG_UPPER" "ORIG_LOWERCASE = ORIG_LOWER" "ORIG_DIGITS = ORIG_NUMBERS"
  "ORIG_PUNCTUATION_SYMBOLS = ORIG_PUNCTS"
  by (simp_all add: ORIG_UPPER_def ORIG_LOWER_def ORIG_NUMBERS_def ORIG_PUNCTS_def
      ORIG_UPPERCASE_def ORIG_LOWERCASE_def ORIG_DIGITS_def ORIG_PUNCTUATION_SYMBOLS_def)

lemma upds4:
  assumes "distinct (A @ B @ C @ E)"
    and "length A' = length A" "length B' = length B" "length C' = length C"
    and "length E' = length E"
  shows "i < length A \<Longrightarrow>
           (d(A [\<mapsto>] A', B [\<mapsto>] B', C [\<mapsto>] C', E [\<mapsto>] E')) (A ! i) = Some (A' ! i)"
    and "i < length B \<Longrightarrow>
           (d(A [\<mapsto>] A', B [\<mapsto>] B', C [\<mapsto>] C', E [\<mapsto>] E')) (B ! i) = Some (B' ! i)"
    and "i < length C \<Longrightarrow>
           (d(A [\<mapsto>] A', B [\<mapsto>] B', C [\<mapsto>] C', E [\<mapsto>] E')) (C ! i) = Some (C' ! i)"
    and "i < length E \<Longrightarrow>
           (d(A [\<mapsto>] A', B [\<mapsto>] B', C [\<mapsto>] C', E [\<mapsto>] E')) (E ! i) = Some (E' ! i)"
    and "x \<notin> set (A @ B @ C @ E) \<Longrightarrow>
           (d(A [\<mapsto>] A', B [\<mapsto>] B', C [\<mapsto>] C', E [\<mapsto>] E')) x = d x"
proof -
  have dA: "distinct A" and dB: "distinct B" and dC: "distinct C" and dE: "distinct E"
    using assms(1) by auto
  have AB: "\<And>y. y \<in> set A \<Longrightarrow> y \<notin> set B \<and> y \<notin> set C \<and> y \<notin> set E"
    and BC: "\<And>y. y \<in> set B \<Longrightarrow> y \<notin> set C \<and> y \<notin> set E"
    and CE: "\<And>y. y \<in> set C \<Longrightarrow> y \<notin> set E"
    using assms(1) by auto
  show "i < length A \<Longrightarrow>
          (d(A [\<mapsto>] A', B [\<mapsto>] B', C [\<mapsto>] C', E [\<mapsto>] E')) (A ! i) = Some (A' ! i)"
    using upds_nth [OF dA assms(2) [symmetric]] AB [of "A ! i"] by simp
  show "i < length B \<Longrightarrow>
          (d(A [\<mapsto>] A', B [\<mapsto>] B', C [\<mapsto>] C', E [\<mapsto>] E')) (B ! i) = Some (B' ! i)"
    using upds_nth [OF dB assms(3) [symmetric]] BC [of "B ! i"] by simp
  show "i < length C \<Longrightarrow>
          (d(A [\<mapsto>] A', B [\<mapsto>] B', C [\<mapsto>] C', E [\<mapsto>] E')) (C ! i) = Some (C' ! i)"
    using upds_nth [OF dC assms(4) [symmetric]] CE [of "C ! i"] by simp
  show "i < length E \<Longrightarrow>
          (d(A [\<mapsto>] A', B [\<mapsto>] B', C [\<mapsto>] C', E [\<mapsto>] E')) (E ! i) = Some (E' ! i)"
    using upds_nth [OF dE assms(5) [symmetric]] by simp
  show "x \<notin> set (A @ B @ C @ E) \<Longrightarrow>
          (d(A [\<mapsto>] A', B [\<mapsto>] B', C [\<mapsto>] C', E [\<mapsto>] E')) x = d x"
    by simp
qed

lemma generateCipherDict_Some:
  assumes "is_int (shift_amount ciphopts)"
  shows "generateCipherDict ciphopts = Some (ciphopts
     \<lparr> effective_shift := shift_amount ciphopts mod 26,
       numbers_shift := (if enc_numbers ciphopts then shift_amount ciphopts mod 10
                         else numbers_shift ciphopts),
       puncts_shift := (if enc_puncts ciphopts then shift_amount ciphopts mod 32
                        else puncts_shift ciphopts),
       cipher_dict := (cipher_dict ciphopts)
         (ORIG_UPPER [\<mapsto>] cshift ORIG_UPPER (shift_amount ciphopts mod 26),
          ORIG_LOWER [\<mapsto>] cshift ORIG_LOWER (shift_amount ciphopts mod 26),
          ORIG_NUMBERS [\<mapsto>] cshift ORIG_NUMBERS
             (if enc_numbers ciphopts then shift_amount ciphopts mod 10
              else numbers_shift ciphopts),
          ORIG_PUNCTS [\<mapsto>] cshift ORIG_PUNCTS
             (if enc_puncts ciphopts then shift_amount ciphopts mod 32
              else puncts_shift ciphopts)) \<rparr>)"
  using assms
  by (simp add: generateCipherDict_def calculateEffectiveShift_eq is_int_small alphabets_length
      dict_store_upds length_cshift Let_def)

lemma generateCipherDict_d_Some:
  assumes "is_int (orig_shift_len ciphopts)"
  shows "generateCipherDict_d ciphopts = Some (ciphopts
     \<lparr> reduced_shift_len := orig_shift_len ciphopts mod 26,
       digits_shift_len := (if flag_test (decipher_flags ciphopts) 2
                            then orig_shift_len ciphopts mod 10
                            else digits_shift_len ciphopts),
       puncts_shift_len := (if flag_test (decipher_flags ciphopts) 3
                            then orig_shift_len ciphopts mod 32
                            else puncts_shift_len ciphopts),
       cipher_dict_d := (cipher_dict_d ciphopts)
         (cshift ORIG_UPPER (orig_shift_len ciphopts mod 26) [\<mapsto>] ORIG_UPPER,
          cshift ORIG_LOWER (orig_shift_len ciphopts mod 26) [\<mapsto>] ORIG_LOWER,
          cshift ORIG_NUMBERS
             (if flag_test (decipher_flags ciphopts) 2 then orig_shift_len ciphopts mod 10
              else digits_shift_len ciphopts) [\<mapsto>] ORIG_NUMBERS,
          cshift ORIG_PUNCTS
             (if flag_test (decipher_flags ciphopts) 3 then orig_shift_len ciphopts mod 32
              else puncts_shift_len ciphopts) [\<mapsto>] ORIG_PUNCTS) \<rparr>)"
  using assms
  by (simp add: generateCipherDict_d_def calcReducedShift_eq is_int_small alphabets_length
      dict_store_upds length_cshift Let_def alphabets_d)

lemma transform_line_take:
  "k \<le> length s \<Longrightarrow>
   fold (\<lambda>n (outstr, num).
             (if s ! n \<in> dom d then outstr @ [the (d (s ! n))]
              else outstr @ [s ! n], num + 1))
          [0..<k] ([], 0)
   = (map (\<lambda>c. if c \<in> dom d then the (d c) else c) (take k s), k)"
proof (induction k)
  case 0
  then show ?case by simp
next
  case (Suc k)
  then show ?case by (simp add: take_Suc_conv_app_nth)
qed

lemma transform_line_map:
  "transform_line d s = (map (\<lambda>c. if c \<in> dom d then the (d c) else c) s, length s)"
  using transform_line_take [of "length s" s d] by (simp add: transform_line_def)

lemma roundtrip_tables:
  assumes dist: "distinct (A @ B @ C @ E)"
    and x: "x \<in> set (A @ B @ C @ E)"
    and same: "x \<in> set A \<longrightarrow> a' = a" "x \<in> set B \<longrightarrow> b' = b" "x \<in> set C \<longrightarrow> c' = c"
      "x \<in> set E \<longrightarrow> e' = e"
  shows "\<exists>y. (d(A [\<mapsto>] cshift A a, B [\<mapsto>] cshift B b, C [\<mapsto>] cshift C c,
                E [\<mapsto>] cshift E e)) x = Some y
           \<and> y \<in> set (A @ B @ C @ E)
           \<and> (d'(cshift A a' [\<mapsto>] A, cshift B b' [\<mapsto>] B, cshift C c' [\<mapsto>] C,
                  cshift E e' [\<mapsto>] E)) y = Some x"
proof -
  have dist': "distinct (cshift A a' @ cshift B b' @ cshift C c' @ cshift E e')"
    using dist by (simp add: distinct_cshift set_cshift)
  note enc = upds4 [OF dist, of "cshift A a" "cshift B b" "cshift C c" "cshift E e",
      simplified length_cshift, OF refl refl refl refl]
  note dec = upds4 [OF dist', of A B C E, simplified length_cshift, OF refl refl refl refl]
  consider "x \<in> set A" | "x \<in> set B" | "x \<in> set C" | "x \<in> set E"
    using x by auto
  then show ?thesis
  proof cases
    case 1
    then obtain i where i: "i < length A" "x = A ! i" by (auto simp: in_set_conv_nth)
    have "cshift A a ! i \<in> set (cshift A a)" using i by (simp add: length_cshift)
    then show ?thesis using enc(1) [of i d] dec(1) [of i d'] i same 1 by (simp add: set_cshift)
  next
    case 2
    then obtain i where i: "i < length B" "x = B ! i" by (auto simp: in_set_conv_nth)
    have "cshift B b ! i \<in> set (cshift B b)" using i by (simp add: length_cshift)
    then show ?thesis using enc(2) [of i d] dec(2) [of i d'] i same 2 by (simp add: set_cshift)
  next
    case 3
    then obtain i where i: "i < length C" "x = C ! i" by (auto simp: in_set_conv_nth)
    have "cshift C c ! i \<in> set (cshift C c)" using i by (simp add: length_cshift)
    then show ?thesis using enc(3) [of i d] dec(3) [of i d'] i same 3 by (simp add: set_cshift)
  next
    case 4
    then obtain i where i: "i < length E" "x = E ! i" by (auto simp: in_set_conv_nth)
    have "cshift E e ! i \<in> set (cshift E e)" using i by (simp add: length_cshift)
    then show ?thesis using enc(4) [of i d] dec(4) [of i d'] i same 4 by (simp add: set_cshift)
  qed
qed

lemma translate_roundtrip:
  assumes "(\<exists>y. e c = Some y \<and> d y = Some c) \<or> (e c = None \<and> d c = None)"
  shows "(if (if c \<in> dom e then the (e c) else c) \<in> dom d
          then the (d (if c \<in> dom e then the (e c) else c))
          else (if c \<in> dom e then the (e c) else c)) = c"
  using assms by (auto simp: domIff)

lemma flag_test_default: "flag_test 64 2 = False" "flag_test 64 3 = False" "flag_test 64 7 = False"
  "flag_test 64 1 = False" "flag_test 64 0 = False"
  by (simp_all add: flag_test_def)

lemma cshift_0: "cshift xs 0 = xs"
  by (simp add: cshift_def)

lemma identity_layer:
  assumes dist: "distinct (A @ B @ C @ E)"
    and len: "length A' = length A" "length B' = length B" "length C' = length C"
      "length E' = length E"
  shows "C' = C \<Longrightarrow> x \<in> set C \<Longrightarrow>
           (d(A [\<mapsto>] A', B [\<mapsto>] B', C [\<mapsto>] C', E [\<mapsto>] E')) x = Some x"
    and "E' = E \<Longrightarrow> x \<in> set E \<Longrightarrow>
           (d(A [\<mapsto>] A', B [\<mapsto>] B', C [\<mapsto>] C', E [\<mapsto>] E')) x = Some x"
  using upds4(3,4) [OF dist len, of _ d] by (auto simp: in_set_conv_nth)

lemma translate_fixed: "m x = Some x \<or> m x = None \<Longrightarrow> (if x \<in> dom m then the (m x) else x) = x"
  by (auto simp: domIff)

lemma passthrough_byte:
  assumes dist: "distinct (A @ B @ C @ E)"
    and len: "length A' = length A" "length B' = length B" "length C' = length C"
      "length E' = length E"
    and C: "x \<in> set C \<Longrightarrow> C' = C" and E: "x \<in> set E \<Longrightarrow> E' = E"
    and x: "x \<notin> set A" "x \<notin> set B"
  shows "(if x \<in> dom (Map.empty(A [\<mapsto>] A', B [\<mapsto>] B', C [\<mapsto>] C', E [\<mapsto>] E'))
          then the ((Map.empty(A [\<mapsto>] A', B [\<mapsto>] B', C [\<mapsto>] C', E [\<mapsto>] E')) x) else x) = x"
proof -
  let ?D = "Map.empty(A [\<mapsto>] A', B [\<mapsto>] B', C [\<mapsto>] C', E [\<mapsto>] E')"
  consider "x \<in> set C" | "x \<in> set E" | "x \<notin> set (A @ B @ C @ E)"
    using x by auto
  then have "?D x = Some x \<or> ?D x = None"
  proof cases
    case 1
    then show ?thesis using identity_layer(1) [OF dist len, of x Map.empty] C by simp
  next
    case 2
    then show ?thesis using identity_layer(2) [OF dist len, of x Map.empty] E by simp
  next
    case 3
    then show ?thesis using upds4(5) [OF dist len 3, of Map.empty] by simp
  qed
  then show ?thesis by (rule translate_fixed)
qed

lemma transform_line_passthrough:
  assumes "\<And>x. x \<notin> S \<Longrightarrow> (if x \<in> dom d then the (d x) else x) = x"
  shows "length (fst (transform_line d line)) = length line \<and>
         (\<forall>i<length line. line ! i \<notin> S \<longrightarrow> fst (transform_line d line) ! i = line ! i)"
  using assms by (simp add: transform_line_map)

lemma small_mod_nat:
  "nat (s mod 26) < 26" "nat (s mod 10) < 10" "nat (s mod 32) < 32"
  by simp_all

lemma layers_agree:
  assumes dist: "distinct (A @ B @ C @ E)"
    and x: "x \<in> set (A @ B @ C @ E)"
    and same: "x \<in> set A \<longrightarrow> a' = a" "x \<in> set B \<longrightarrow> b' = b" "x \<in> set C \<longrightarrow> c' = c"
      "x \<in> set E \<longrightarrow> e' = e"
  shows "(d(A [\<mapsto>] cshift A a, B [\<mapsto>] cshift B b, C [\<mapsto>] cshift C c,
            E [\<mapsto>] cshift E e)) x
         = (d'(A [\<mapsto>] cshift A a', B [\<mapsto>] cshift B b', C [\<mapsto>] cshift C c',
               E [\<mapsto>] cshift E e')) x"
    and "(d(cshift A a [\<mapsto>] A, cshift B b [\<mapsto>] B, cshift C c [\<mapsto>] C,
            cshift E e [\<mapsto>] E)) x
         = (d'(cshift A a' [\<mapsto>] A, cshift B b' [\<mapsto>] B, cshift C c' [\<mapsto>] C,
               cshift E e' [\<mapsto>] E)) x"
proof -
  have dist1: "distinct (cshift A a @ cshift B b @ cshift C c @ cshift E e)"
    and dist2: "distinct (cshift A a' @ cshift B b' @ cshift C c' @ cshift E e')"
    using dist by (simp_all add: distinct_cshift set_cshift)
  note enc1 = upds4 [OF dist, of "cshift A a" "cshift B b" "cshift C c" "cshift E e",
      simplified length_cshift, OF refl refl refl refl]
  note enc2 = upds4 [OF dist, of "cshift A a'" "cshift B b'" "cshift C c'" "cshift E e'",
      simplified length_cshift, OF refl refl refl refl]
  note dec1 = upds4 [OF dist1, of A B C E, simplified length_cshift, OF refl refl refl refl]
  note dec2 = upds4 [OF dist2, of A B C E, simplified length_cshift, OF refl refl refl refl]
  consider "x \<in> set A" | "x \<in> set B" | "x \<in> set C" | "x \<in> set E"
    using x by auto
  then have "(d(A [\<mapsto>] cshift A a, B [\<mapsto>] cshift B b, C [\<mapsto>] cshift C c,
            E [\<mapsto>] cshift E e)) x
         = (d'(A [\<mapsto>] cshift A a', B [\<mapsto>] cshift B b', C [\<mapsto>] cshift C c',
               E [\<mapsto>] cshift E e')) x \<and>
        (d(cshift A a [\<mapsto>] A, cshift B b [\<mapsto>] B, cshift C c [\<mapsto>] C,
            cshift E e [\<mapsto>] E)) x
         = (d'(cshift A a' [\<mapsto>] A, cshift B b' [\<mapsto>] B, cshift C c' [\<mapsto>] C,
               cshift E e' [\<mapsto>] E)) x"
  proof cases
    case 1
    then obtain i where i: "i < length A" "x = A ! i" by (auto simp: in_set_conv_nth)
    from 1 obtain j where j: "j < length A" "x = cshift A a ! j"
      by (metis in_set_conv_nth set_cshift length_cshift)
    show ?thesis
      using enc1(1) [of i d] enc2(1) [of i d'] dec1(1) [of j d] dec2(1) [of j d'] i j same 1
      by simp
  next
    case 2
    then obtain i where i: "i < length B" "x = B ! i" by (auto simp: in_set_conv_nth)
    from 2 obtain j where j: "j < length B" "x = cshift B b ! j"
      by (metis in_set_conv_nth set_cshift length_cshift)
    show ?thesis
      using enc1(2) [of i d] enc2(2) [of i d'] dec1(2) [of j d] dec2(2) [of j d'] i j same 2
      by simp
  next
    case 3
    then obtain i where i: "i < length C" "x = C ! i" by (auto simp: in_set_conv_nth)
    from 3 obtain j where j: "j < length C" "x = cshift C c ! j"
      by (metis in_set_conv_nth set_cshift length_cshift)
    show ?thesis
      using enc1(3) [of i d] enc2(3) [of i d'] dec1(3) [of j d] dec2(3) [of j d'] i j same 3
      by simp
  next
    case 4
    then obtain i where i: "i < length E" "x = E ! i" by (auto simp: in_set_conv_nth)
    from 4 obtain j where j: "j < length E" "x = cshift E e ! j"
      by (metis in_set_conv_nth set_cshift length_cshift)
    show ?thesis
      using enc1(4) [of i d] enc2(4) [of i d'] dec1(4) [of j d] dec2(4) [of j d'] i j same 4
      by simp
  qed
  then show "(d(A [\<mapsto>] cshift A a, B [\<mapsto>] cshift B b, C [\<mapsto>] cshift C c,
            E [\<mapsto>] cshift E e)) x
         = (d'(A [\<mapsto>] cshift A a', B [\<mapsto>] cshift B b', C [\<mapsto>] cshift C c',
               E [\<mapsto>] cshift E e')) x"
    and "(d(cshift A a [\<mapsto>] A, cshift B b [\<mapsto>] B, cshift C c [\<mapsto>] C,
            cshift E e [\<mapsto>] E)) x
         = (d'(cshift A a' [\<mapsto>] A, cshift B b' [\<mapsto>] B, cshift C c' [\<mapsto>] C,
               cshift E e' [\<mapsto>] E)) x"
    by blast+
qed

lemma identity_entries:
  assumes dist: "distinct (A @ B @ C @ E)"
  shows "x \<in> set C \<Longrightarrow>
           (d(A [\<mapsto>] cshift A a, B [\<mapsto>] cshift B b, C [\<mapsto>] cshift C 0,
              E [\<mapsto>] cshift E e)) x = Some x"
    and "x \<in> set E \<Longrightarrow>
           (d(A [\<mapsto>] cshift A a, B [\<mapsto>] cshift B b, C [\<mapsto>] cshift C c,
              E [\<mapsto>] cshift E 0)) x = Some x"
    and "x \<in> set C \<Longrightarrow>
           (d(cshift A a [\<mapsto>] A, cshift B b [\<mapsto>] B, cshift C 0 [\<mapsto>] C,
              cshift E e [\<mapsto>] E)) x = Some x"
    and "x \<in> set E \<Longrightarrow>
           (d(cshift A a [\<mapsto>] A, cshift B b [\<mapsto>] B, cshift C c [\<mapsto>] C,
              cshift E 0 [\<mapsto>] E)) x = Some x"
proof -
  have dist': "distinct (cshift A a @ cshift B b @ cshift C c' @ cshift E e')" for c' e'
    using dist by (simp add: distinct_cshift set_cshift)
  show "x \<in> set C \<Longrightarrow>
           (d(A [\<mapsto>] cshift A a, B [\<mapsto>] cshift B b, C [\<mapsto>] cshift C 0,
              E [\<mapsto>] cshift E e)) x = Some x"
    by (rule identity_layer(1) [OF dist]) (simp_all add: length_cshift cshift_0)
  show "x \<in> set E \<Longrightarrow>
           (d(A [\<mapsto>] cshift A a, B [\<mapsto>] cshift B b, C [\<mapsto>] cshift C c,
              E [\<mapsto>] cshift E 0)) x = Some x"
    by (rule identity_layer(2) [OF dist]) (simp_all add: length_cshift cshift_0)
  show "x \<in> set C \<Longrightarrow>
           (d(cshift A a [\<mapsto>] A, cshift B b [\<mapsto>] B, cshift C 0 [\<mapsto>] C,
              cshift E e [\<mapsto>] E)) x = Some x"
    by (rule identity_layer(1) [OF dist']) (simp_all add: length_cshift cshift_0)
  show "x \<in> set E \<Longrightarrow>
           (d(cshift A a [\<mapsto>] A, cshift B b [\<mapsto>] B, cshift C c [\<mapsto>] C,
              cshift E 0 [\<mapsto>] E)) x = Some x"
    by (rule identity_layer(2) [OF dist']) (simp_all add: length_cshift cshift_0)
qed

lemma absent_entries:
  assumes dist: "distinct (A @ B @ C @ E)" and x: "x \<notin> set (A @ B @ C @ E)"
  shows "(d(A [\<mapsto>] cshift A a, B [\<mapsto>] cshift B b, C [\<mapsto>] cshift C c,
              E [\<mapsto>] cshift E e)) x = d x"
    and "(d(cshift A a [\<mapsto>] A, cshift B b [\<mapsto>] B, cshift C c [\<mapsto>] C,
              cshift E e [\<mapsto>] E)) x = d x"
proof -
  have dist': "distinct (cshift A a @ cshift B b @ cshift C c @ cshift E e)"
    using dist by (simp add: distinct_cshift set_cshift)
  have x': "x \<notin> set (cshift A a @ cshift B b @ cshift C c @ cshift E e)"
    using x by (simp add: set_cshift)
  show "(d(A [\<mapsto>] cshift A a, B [\<mapsto>] cshift B b, C [\<mapsto>] cshift C c,
              E [\<mapsto>] cshift E e)) x = d x"
    by (rule upds4(5) [OF dist _ _ _ _ x]) (simp_all only: length_cshift)
  show "(d(cshift A a [\<mapsto>] A, cshift B b [\<mapsto>] B, cshift C c [\<mapsto>] C,
              cshift E e [\<mapsto>] E)) x = d x"
    by (rule upds4(5) [OF dist' _ _ _ _ x']) (simp_all only: length_cshift)
qed

lemma shifts_differ_example:
  "\<exists>eo eo' dopt do'. enc_numbers eo \<and> enc_puncts eo \<and> generateCipherDict eo = Some eo' \<and>
      effective_shift eo' \<noteq> numbers_shift eo' \<and> effective_shift eo' \<noteq> puncts_shift eo' \<and>
      numbers_shift eo' \<noteq> puncts_shift eo' \<and>
      numbers_shift eo' \<noteq> effective_shift eo' mod 10 \<and>
      puncts_shift eo' \<noteq> effective_shift eo' mod 32 \<and>
      flag_test (decipher_flags dopt) 2 \<and> flag_test (decipher_flags dopt) 3 \<and>
      generateCipherDict_d dopt = Some do' \<and>
      reduced_shift_len do' \<noteq> digits_shift_len do' \<and>
      reduced_shift_len do' \<noteq> puncts_shift_len do' \<and>
      digits_shift_len do' \<noteq> puncts_shift_len do' \<and>
      digits_shift_len do' \<noteq> reduced_shift_len do' mod 10 \<and>
      puncts_shift_len do' \<noteq> reduced_shift_len do' mod 32"
proof -
  let ?eo = "CipherOptions_default\<lparr>shift_amount := 36, enc_numbers := True, enc_puncts := True\<rparr>"
  let ?do = "DecipherCtrlOpts_default\<lparr>orig_shift_len := 36,
         decipher_flags := flag_assign (flag_assign 64 2 True) 3 True\<rparr>"
  have i: "is_int (shift_amount ?eo)" "is_int (orig_shift_len ?do)"
    by (simp_all add: is_int_def INT_MIN_def INT_MAX_def)
  have f: "flag_test (decipher_flags ?do) 2" "flag_test (decipher_flags ?do) 3"
    by (simp_all add: flag_test_def flag_assign_def bit_simps)
  from generateCipherDict_Some [OF i(1)] obtain eo' where
    e: "generateCipherDict ?eo = Some eo'" "effective_shift eo' = 10" "numbers_shift eo' = 6"
      "puncts_shift eo' = 4"
    by simp
  from generateCipherDict_d_Some [OF i(2)] f obtain do' where
    d: "generateCipherDict_d ?do = Some do'" "reduced_shift_len do' = 10"
      "digits_shift_len do' = 6" "puncts_shift_len do' = 4"
    by simp
  show ?thesis
    using e d f
    by (intro exI [of _ ?eo] exI [of _ eo'] exI [of _ ?do] exI [of _ do']) simp
qed

section \<open>Claims about the shift table builder\<close>

text \<open>
  Claim C2. For every shift \<open>s\<close> of type \<open>int\<close> and every alphabet size \<open>m\<close> among 26, 10
  and 32, the reduced shift of both programs is the floor-style modulo
  \<open>((s % m) + m) % m\<close> of the specification, which is \<open>s mod m\<close>: for a negative \<open>s\<close> it is
  the first non-negative value of \<open>s + m\<close>, \<open>s + 2 m\<close>, ..., for a non-negative \<open>s\<close> it is
  \<open>s % m\<close>, and it lies in \<open>[0, m)\<close>.
\<close>

theorem reduced_shift_floor_modulo:
  assumes "is_int s" and "m = 26 \<or> m = 10 \<or> m = 32"
  shows "calcReducedShift s m = Some (s mod m) \<and>
         calculateEffectiveShift s m = Some (s mod m) \<and>
         spec_floor_modulo s m = Some (s mod m) \<and>
         (s < 0 \<longrightarrow> (\<exists>j::nat. s mod m = s + int j * m \<and> (\<forall>i<j. s + int i * m < 0))) \<and>
         (0 \<le> s \<longrightarrow> int_rem s m = Some (s mod m)) \<and>
         0 \<le> s mod m \<and> s mod m < m"
proof -
  have m: "0 < m" "m \<le> 32" "is_int m"
    using assms(2) is_int_small by auto
  have "0 \<le> s \<longrightarrow> int_rem s m = Some (s mod m)"
    using m by (auto simp: int_rem_def smod_mod_positive)
  then show ?thesis
    using assms(1) m calcReducedShift_eq calculateEffectiveShift_eq spec_floor_modulo_eq
      first_nonneg [of s m]
    by simp
qed

theorem reduced_shift_floor_modulo_witness:
  "is_int (- 3) \<and> calcReducedShift (- 3) 26 = Some 23 \<and>
   calculateEffectiveShift (- 3) 26 = Some 23 \<and> spec_floor_modulo (- 3) 26 = Some 23 \<and>
   is_int 100 \<and> calcReducedShift 100 10 = Some 0 \<and> int_rem 100 10 = Some 0"
  using reduced_shift_floor_modulo [of "- 3" 26] reduced_shift_floor_modulo [of 100 10]
  by (simp add: is_int_def INT_MIN_def INT_MAX_def)

text \<open>
  Claim C1. For every shift \<open>k\<close> of type \<open>int\<close> and every choice of the classes, the
  deciphering table built for \<open>k\<close> and the classes inverts the enciphering table built for
  them on every byte of an enabled class. When both programs start from the options as
  \<open>main\<close> creates them (empty dictionary, digit and punctuation shifts 0), deciphering an
  enciphered line gives the line back, whatever bytes it holds.
\<close>

theorem decipher_inverts_encipher:
  assumes k: "is_int k" "shift_amount eo = k" "orig_shift_len dopt = k"
    and classes: "flag_test (decipher_flags dopt) 2 = enc_numbers eo"
      "flag_test (decipher_flags dopt) 3 = enc_puncts eo"
  shows "\<exists>eo' do'. generateCipherDict eo = Some eo' \<and> generateCipherDict_d dopt = Some do' \<and>
     (\<forall>x \<in> enabled_alphabet (enc_numbers eo) (enc_puncts eo).
        \<exists>y. cipher_dict eo' x = Some y \<and> cipher_dict_d do' y = Some x) \<and>
     (numbers_shift eo = 0 \<and> puncts_shift eo = 0 \<and> cipher_dict eo = Map.empty \<and>
      digits_shift_len dopt = 0 \<and> puncts_shift_len dopt = 0 \<and> cipher_dict_d dopt = Map.empty
      \<longrightarrow> (\<forall>line. fst (transform_line (cipher_dict_d do')
                       (fst (transform_line (cipher_dict eo') line))) = line))"
proof -
  note E = generateCipherDict_Some [of eo, unfolded k(2), OF k(1)]
  note D = generateCipherDict_d_Some [of dopt, unfolded k(3), OF k(1)]
  let ?n = "if enc_numbers eo then k mod 10 else numbers_shift eo"
  let ?p = "if enc_puncts eo then k mod 32 else puncts_shift eo"
  let ?n' = "if enc_numbers eo then k mod 10 else digits_shift_len dopt"
  let ?p' = "if enc_puncts eo then k mod 32 else puncts_shift_len dopt"
  let ?enc = "(cipher_dict eo)(ORIG_UPPER [\<mapsto>] cshift ORIG_UPPER (k mod 26),
          ORIG_LOWER [\<mapsto>] cshift ORIG_LOWER (k mod 26),
          ORIG_NUMBERS [\<mapsto>] cshift ORIG_NUMBERS ?n,
          ORIG_PUNCTS [\<mapsto>] cshift ORIG_PUNCTS ?p)"
  let ?dec = "(cipher_dict_d dopt)(cshift ORIG_UPPER (k mod 26) [\<mapsto>] ORIG_UPPER,
          cshift ORIG_LOWER (k mod 26) [\<mapsto>] ORIG_LOWER,
          cshift ORIG_NUMBERS ?n' [\<mapsto>] ORIG_NUMBERS,
          cshift ORIG_PUNCTS ?p' [\<mapsto>] ORIG_PUNCTS)"
  have tab: "\<exists>y. ?enc x = Some y \<and> ?dec y = Some x"
    if "x \<in> enabled_alphabet (enc_numbers eo) (enc_puncts eo)" for x
  proof -
    have x: "x \<in> set (ORIG_UPPER @ ORIG_LOWER @ ORIG_NUMBERS @ ORIG_PUNCTS)"
      using that by (auto simp: enabled_alphabet_def split: if_splits)
    have n: "x \<in> set ORIG_NUMBERS \<longrightarrow> ?n' = ?n"
      using that alphabets_distinct by (auto simp: enabled_alphabet_def split: if_splits)
    have p: "x \<in> set ORIG_PUNCTS \<longrightarrow> ?p' = ?p"
      using that alphabets_distinct by (auto simp: enabled_alphabet_def split: if_splits)
    show ?thesis
      using roundtrip_tables [OF alphabets_distinct x _ _ n p, of "k mod 26" "k mod 26"
          "k mod 26" "k mod 26" "cipher_dict eo" "cipher_dict_d dopt"]
      by blast
  qed
  have lines: "fst (transform_line ?dec (fst (transform_line ?enc line))) = line"
    if fresh: "numbers_shift eo = 0 \<and> puncts_shift eo = 0 \<and> cipher_dict eo = Map.empty \<and>
      digits_shift_len dopt = 0 \<and> puncts_shift_len dopt = 0 \<and> cipher_dict_d dopt = Map.empty"
    for line
  proof -
    have chr: "(if (if c \<in> dom ?enc then the (?enc c) else c) \<in> dom ?dec
                then the (?dec (if c \<in> dom ?enc then the (?enc c) else c))
                else (if c \<in> dom ?enc then the (?enc c) else c)) = c" for c
    proof (cases "c \<in> set (ORIG_UPPER @ ORIG_LOWER @ ORIG_NUMBERS @ ORIG_PUNCTS)")
      case True
      have "?n' = ?n" "?p' = ?p" using fresh by simp_all
      then have "\<exists>y. ?enc c = Some y \<and> ?dec y = Some c"
        using roundtrip_tables [OF alphabets_distinct True, of "k mod 26" "k mod 26"
          "k mod 26" "k mod 26" ?n' ?n ?p' ?p "cipher_dict eo" "cipher_dict_d dopt"]
        by blast
      then show ?thesis by (intro translate_roundtrip) blast
    next
      case False
      have dist': "distinct (cshift ORIG_UPPER (k mod 26) @ cshift ORIG_LOWER (k mod 26) @
           cshift ORIG_NUMBERS ?n' @ cshift ORIG_PUNCTS ?p')"
        using alphabets_distinct by (simp add: distinct_cshift set_cshift)
      have "?enc c = cipher_dict eo c"
        by (rule upds4(5) [OF alphabets_distinct _ _ _ _ False]) (simp_all only: length_cshift)
      then have encN: "?enc c = None"
        using fresh by simp
      have notin: "c \<notin> set (cshift ORIG_UPPER (k mod 26) @ cshift ORIG_LOWER (k mod 26) @
           cshift ORIG_NUMBERS ?n' @ cshift ORIG_PUNCTS ?p')"
        using False by (simp add: set_cshift)
      have "?dec c = cipher_dict_d dopt c"
        by (rule upds4(5) [OF dist' _ _ _ _ notin]) (simp_all only: length_cshift)
      then have "?dec c = None"
        using fresh by simp
      with encN show ?thesis by (intro translate_roundtrip) blast
    qed
    show ?thesis
      by (simp only: transform_line_map fst_conv map_map o_def chr map_idI)
  qed
  show ?thesis
    unfolding E D using tab lines classes by (simp add: classes)
qed

theorem decipher_inverts_encipher_witness:
  "\<exists>eo' do'. generateCipherDict (CipherOptions_default\<lparr>shift_amount := - 3\<rparr>) = Some eo' \<and>
     generateCipherDict_d (DecipherCtrlOpts_default\<lparr>orig_shift_len := - 3\<rparr>) = Some do' \<and>
     (\<exists>y. cipher_dict eo' CHR ''a'' = Some y \<and> cipher_dict_d do' y = Some CHR ''a'') \<and>
     fst (transform_line (cipher_dict_d do') (fst (transform_line (cipher_dict eo') ''abc, 1!'')))
       = ''abc, 1!''"
proof -
  let ?eo = "CipherOptions_default\<lparr>shift_amount := - 3\<rparr>"
  let ?do = "DecipherCtrlOpts_default\<lparr>orig_shift_len := - 3\<rparr>"
  have h: "is_int (- 3)" "shift_amount ?eo = - 3" "orig_shift_len ?do = - 3"
    "flag_test (decipher_flags ?do) 2 = enc_numbers ?eo"
    "flag_test (decipher_flags ?do) 3 = enc_puncts ?eo"
    by (simp_all add: is_int_def INT_MIN_def INT_MAX_def CipherOptions_default_def
        DecipherCtrlOpts_default_def flag_test_def)
  have fresh: "numbers_shift ?eo = 0 \<and> puncts_shift ?eo = 0 \<and> cipher_dict ?eo = Map.empty \<and>
      digits_shift_len ?do = 0 \<and> puncts_shift_len ?do = 0 \<and> cipher_dict_d ?do = Map.empty"
    by (simp add: CipherOptions_default_def DecipherCtrlOpts_default_def)
  have a: "CHR ''a'' \<in> enabled_alphabet (enc_numbers ?eo) (enc_puncts ?eo)"
    by (simp add: enabled_alphabet_def ORIG_LOWER_def)
  from decipher_inverts_encipher [OF h] fresh a show ?thesis
    by blast
qed

text \<open>
  Claim C3. Each class has its own rotation, computed from the raw shift alone: whenever
  the digits are enabled, with or without the punctuation, the digit rotation is the raw
  shift reduced modulo 10, and whenever the punctuation is enabled, with or without the
  digits, the punctuation rotation is the raw shift reduced modulo 32; the tables rotate
  the two classes by these amounts. They are not the letter rotation reduced again: for
  the raw shift 36 the three rotations are 10, 6 and 4.
\<close>

theorem class_shifts_independent:
  assumes "is_int s"
    and "shift_amount eo = s"
    and "orig_shift_len dopt = s"
  shows "(\<exists>eo' do'. generateCipherDict eo = Some eo' \<and> generateCipherDict_d dopt = Some do' \<and>
      effective_shift eo' = s mod 26 \<and> reduced_shift_len do' = s mod 26 \<and>
      (enc_numbers eo \<longrightarrow>
         numbers_shift eo' = s mod 10 \<and>
         (\<forall>i<10. cipher_dict eo' (ORIG_NUMBERS ! i)
                    = Some (ORIG_NUMBERS ! ((i + nat (s mod 10)) mod 10)))) \<and>
      (enc_puncts eo \<longrightarrow>
         puncts_shift eo' = s mod 32 \<and>
         (\<forall>i<32. cipher_dict eo' (ORIG_PUNCTS ! i)
                    = Some (ORIG_PUNCTS ! ((i + nat (s mod 32)) mod 32)))) \<and>
      (flag_test (decipher_flags dopt) 2 \<longrightarrow>
         digits_shift_len do' = s mod 10 \<and>
         (\<forall>i<10. cipher_dict_d do' (ORIG_DIGITS ! ((i + nat (s mod 10)) mod 10))
                    = Some (ORIG_DIGITS ! i))) \<and>
      (flag_test (decipher_flags dopt) 3 \<longrightarrow>
         puncts_shift_len do' = s mod 32 \<and>
         (\<forall>i<32. cipher_dict_d do' (ORIG_PUNCTUATION_SYMBOLS ! ((i + nat (s mod 32)) mod 32))
                    = Some (ORIG_PUNCTUATION_SYMBOLS ! i)))) \<and>
    (\<exists>eo eo' dopt do'. enc_numbers eo \<and> enc_puncts eo \<and> generateCipherDict eo = Some eo' \<and>
      effective_shift eo' \<noteq> numbers_shift eo' \<and> effective_shift eo' \<noteq> puncts_shift eo' \<and>
      numbers_shift eo' \<noteq> puncts_shift eo' \<and>
      numbers_shift eo' \<noteq> effective_shift eo' mod 10 \<and>
      puncts_shift eo' \<noteq> effective_shift eo' mod 32 \<and>
      flag_test (decipher_flags dopt) 2 \<and> flag_test (decipher_flags dopt) 3 \<and>
      generateCipherDict_d dopt = Some do' \<and>
      reduced_shift_len do' \<noteq> digits_shift_len do' \<and>
      reduced_shift_len do' \<noteq> puncts_shift_len do' \<and>
      digits_shift_len do' \<noteq> puncts_shift_len do' \<and>
      digits_shift_len do' \<noteq> reduced_shift_len do' mod 10 \<and>
      puncts_shift_len do' \<noteq> reduced_shift_len do' mod 32)"
proof -
  define en where "en = (if enc_numbers eo then s mod 10 else numbers_shift eo)"
  define ep where "ep = (if enc_puncts eo then s mod 32 else puncts_shift eo)"
  define dn where
    "dn = (if flag_test (decipher_flags dopt) 2 then s mod 10 else digits_shift_len dopt)"
  define dp where
    "dp = (if flag_test (decipher_flags dopt) 3 then s mod 32 else puncts_shift_len dopt)"
  let ?enc = "(cipher_dict eo)(ORIG_UPPER [\<mapsto>] cshift ORIG_UPPER (s mod 26),
          ORIG_LOWER [\<mapsto>] cshift ORIG_LOWER (s mod 26),
          ORIG_NUMBERS [\<mapsto>] cshift ORIG_NUMBERS en,
          ORIG_PUNCTS [\<mapsto>] cshift ORIG_PUNCTS ep)"
  let ?dec = "(cipher_dict_d dopt)(cshift ORIG_UPPER (s mod 26) [\<mapsto>] ORIG_UPPER,
          cshift ORIG_LOWER (s mod 26) [\<mapsto>] ORIG_LOWER,
          cshift ORIG_NUMBERS dn [\<mapsto>] ORIG_NUMBERS,
          cshift ORIG_PUNCTS dp [\<mapsto>] ORIG_PUNCTS)"
  have E: "generateCipherDict eo = Some (eo\<lparr>effective_shift := s mod 26,
      numbers_shift := en, puncts_shift := ep, cipher_dict := ?enc\<rparr>)"
    using generateCipherDict_Some [of eo] assms(1,2) unfolding en_def ep_def by simp
  have D: "generateCipherDict_d dopt = Some (dopt\<lparr>reduced_shift_len := s mod 26,
      digits_shift_len := dn, puncts_shift_len := dp, cipher_dict_d := ?dec\<rparr>)"
    using generateCipherDict_d_Some [of dopt] assms(1,3) unfolding dn_def dp_def by simp
  have dist': "distinct (cshift ORIG_UPPER (s mod 26) @ cshift ORIG_LOWER (s mod 26) @
       cshift ORIG_NUMBERS dn @ cshift ORIG_PUNCTS dp)"
    using alphabets_distinct by (simp add: distinct_cshift set_cshift)
  note enc = upds4 [OF alphabets_distinct, of "cshift ORIG_UPPER (s mod 26)"
      "cshift ORIG_LOWER (s mod 26)" "cshift ORIG_NUMBERS en"
      "cshift ORIG_PUNCTS ep", simplified length_cshift, OF refl refl refl refl]
  note dec = upds4 [OF dist', of ORIG_UPPER ORIG_LOWER ORIG_NUMBERS ORIG_PUNCTS,
      simplified length_cshift, OF refl refl refl refl]
  have n1: "?enc (ORIG_NUMBERS ! i) = Some (ORIG_NUMBERS ! ((i + nat (s mod 10)) mod 10))"
    if "i < 10" "enc_numbers eo" for i
    using enc(3) [of i "cipher_dict eo"] that
    by (simp add: nth_cshift alphabets_length en_def)
  have p1: "?enc (ORIG_PUNCTS ! i) = Some (ORIG_PUNCTS ! ((i + nat (s mod 32)) mod 32))"
    if "i < 32" "enc_puncts eo" for i
    using enc(4) [of i "cipher_dict eo"] that
    by (simp add: nth_cshift alphabets_length ep_def)
  have n2: "?dec (ORIG_NUMBERS ! ((i + nat (s mod 10)) mod 10)) = Some (ORIG_NUMBERS ! i)"
    if "i < 10" "flag_test (decipher_flags dopt) 2" for i
    using dec(3) [of i "cipher_dict_d dopt"] that
    by (simp add: nth_cshift alphabets_length dn_def)
  have p2: "?dec (ORIG_PUNCTS ! ((i + nat (s mod 32)) mod 32)) = Some (ORIG_PUNCTS ! i)"
    if "i < 32" "flag_test (decipher_flags dopt) 3" for i
    using dec(4) [of i "cipher_dict_d dopt"] that
    by (simp add: nth_cshift alphabets_length dp_def)
  from E obtain eo' where e: "generateCipherDict eo = Some eo'" "cipher_dict eo' = ?enc"
    "effective_shift eo' = s mod 26" "numbers_shift eo' = en" "puncts_shift eo' = ep"
    by simp
  from D obtain do' where d: "generateCipherDict_d dopt = Some do'" "cipher_dict_d do' = ?dec"
    "reduced_shift_len do' = s mod 26" "digits_shift_len do' = dn"
    "puncts_shift_len do' = dp"
    by simp
  have en: "enc_numbers eo \<Longrightarrow> numbers_shift eo' = s mod 10"
    and ep: "enc_puncts eo \<Longrightarrow> puncts_shift eo' = s mod 32"
    and dn: "flag_test (decipher_flags dopt) 2 \<Longrightarrow> digits_shift_len do' = s mod 10"
    and dp: "flag_test (decipher_flags dopt) 3 \<Longrightarrow> puncts_shift_len do' = s mod 32"
    by (simp_all add: e(4,5) d(4,5) en_def ep_def dn_def dp_def)
  have "generateCipherDict eo = Some eo' \<and> generateCipherDict_d dopt = Some do' \<and>
      effective_shift eo' = s mod 26 \<and> reduced_shift_len do' = s mod 26 \<and>
      (enc_numbers eo \<longrightarrow>
         numbers_shift eo' = s mod 10 \<and>
         (\<forall>i<10. cipher_dict eo' (ORIG_NUMBERS ! i)
                    = Some (ORIG_NUMBERS ! ((i + nat (s mod 10)) mod 10)))) \<and>
      (enc_puncts eo \<longrightarrow>
         puncts_shift eo' = s mod 32 \<and>
         (\<forall>i<32. cipher_dict eo' (ORIG_PUNCTS ! i)
                    = Some (ORIG_PUNCTS ! ((i + nat (s mod 32)) mod 32)))) \<and>
      (flag_test (decipher_flags dopt) 2 \<longrightarrow>
         digits_shift_len do' = s mod 10 \<and>
         (\<forall>i<10. cipher_dict_d do' (ORIG_NUMBERS ! ((i + nat (s mod 10)) mod 10))
                    = Some (ORIG_NUMBERS ! i))) \<and>
      (flag_test (decipher_flags dopt) 3 \<longrightarrow>
         puncts_shift_len do' = s mod 32 \<and>
         (\<forall>i<32. cipher_dict_d do' (ORIG_PUNCTS ! ((i + nat (s mod 32)) mod 32))
                    = Some (ORIG_PUNCTS ! i)))"
    unfolding e(2) d(2)
    apply (intro conjI impI allI)
    subgoal by (rule e(1))
    subgoal by (rule d(1))
    subgoal by (rule e(3))
    subgoal by (rule d(3))
    subgoal by (rule en)
    subgoal by (rule n1)
    subgoal by (rule ep)
    subgoal by (rule p1)
    subgoal by (rule dn)
    subgoal by (rule n2)
    subgoal by (rule dp)
    subgoal by (rule p2)
    done
  then show ?thesis
    unfolding alphabets_d using shifts_differ_example by blast
qed

theorem class_shifts_independent_witness:
  "(\<exists>eo' do'.
      generateCipherDict (CipherOptions_default\<lparr>shift_amount := 36, enc_numbers := True,
         enc_puncts := True\<rparr>) = Some eo' \<and>
      generateCipherDict_d (DecipherCtrlOpts_default\<lparr>orig_shift_len := 36,
         decipher_flags := flag_assign (flag_assign 64 2 True) 3 True\<rparr>) = Some do' \<and>
      effective_shift eo' = 10 \<and> numbers_shift eo' = 6 \<and> puncts_shift eo' = 4 \<and>
      reduced_shift_len do' = 10 \<and> digits_shift_len do' = 6 \<and> puncts_shift_len do' = 4 \<and>
      cipher_dict eo' CHR ''0'' = Some CHR ''6'' \<and> cipher_dict_d do' CHR ''6'' = Some CHR ''0'' \<and>
      cipher_dict eo' CHR ''!'' = Some CHR ''%'' \<and> cipher_dict_d do' CHR ''%'' = Some CHR ''!'') \<and>
   (\<exists>eo' do'.
      generateCipherDict (CipherOptions_default\<lparr>enc_numbers := True\<rparr>) = Some eo' \<and>
      generateCipherDict_d (DecipherCtrlOpts_default\<lparr>decipher_flags := flag_assign 64 2 True\<rparr>)
        = Some do' \<and>
      effective_shift eo' = 5 \<and> numbers_shift eo' = 5 \<and>
      reduced_shift_len do' = 5 \<and> digits_shift_len do' = 5 \<and>
      cipher_dict eo' CHR ''1'' = Some CHR ''6'' \<and> cipher_dict_d do' CHR ''6'' = Some CHR ''1'') \<and>
   (\<exists>eo' do'.
      generateCipherDict (CipherOptions_default\<lparr>shift_amount := 36, enc_puncts := True\<rparr>)
        = Some eo' \<and>
      generateCipherDict_d (DecipherCtrlOpts_default\<lparr>orig_shift_len := 36,
         decipher_flags := flag_assign 64 3 True\<rparr>) = Some do' \<and>
      effective_shift eo' = 10 \<and> puncts_shift eo' = 4 \<and>
      reduced_shift_len do' = 10 \<and> puncts_shift_len do' = 4 \<and>
      cipher_dict eo' CHR ''!'' = Some CHR ''%'' \<and> cipher_dict_d do' CHR ''%'' = Some CHR ''!'')"
proof -
  have a: "(0::nat) < 10" "(0::nat) < 32" "(1::nat) < 10" "ORIG_NUMBERS ! 0 = CHR ''0''"
    "ORIG_NUMBERS ! ((0 + nat (36 mod 10)) mod 10) = CHR ''6''"
    "ORIG_NUMBERS ! 1 = CHR ''1''"
    "ORIG_NUMBERS ! ((1 + nat (5 mod 10)) mod 10) = CHR ''6''"
    "ORIG_PUNCTS ! 0 = CHR ''!''" "ORIG_PUNCTS ! ((0 + nat (36 mod 32)) mod 32) = CHR ''%''"
    "(36::int) mod 26 = 10" "(36::int) mod 10 = 6" "(36::int) mod 32 = 4"
    "(5::int) mod 26 = 5" "(5::int) mod 10 = 5"
    by (simp_all add: ORIG_NUMBERS_def ORIG_PUNCTS_def)
  have i: "is_int 36" "is_int 5"
    by (simp_all add: is_int_def INT_MIN_def INT_MAX_def)
  let ?eo = "CipherOptions_default\<lparr>shift_amount := 36, enc_numbers := True, enc_puncts := True\<rparr>"
  let ?do = "DecipherCtrlOpts_default\<lparr>orig_shift_len := 36,
         decipher_flags := flag_assign (flag_assign 64 2 True) 3 True\<rparr>"
  have h: "shift_amount ?eo = 36" "orig_shift_len ?do = 36"
    and f: "enc_numbers ?eo" "enc_puncts ?eo" "flag_test (decipher_flags ?do) 2"
      "flag_test (decipher_flags ?do) 3"
    by (simp_all add: flag_test_def flag_assign_def bit_simps)
  from class_shifts_independent [OF i(1) h, THEN conjunct1] f obtain eo' do' where
    r: "generateCipherDict ?eo = Some eo'" "generateCipherDict_d ?do = Some do'"
      "effective_shift eo' = 36 mod 26" "reduced_shift_len do' = 36 mod 26"
      "numbers_shift eo' = 36 mod 10" "puncts_shift eo' = 36 mod 32"
      "digits_shift_len do' = 36 mod 10" "puncts_shift_len do' = 36 mod 32"
      "\<forall>i<10. cipher_dict eo' (ORIG_NUMBERS ! i)
                 = Some (ORIG_NUMBERS ! ((i + nat (36 mod 10)) mod 10))"
      "\<forall>i<10. cipher_dict_d do' (ORIG_NUMBERS ! ((i + nat (36 mod 10)) mod 10))
                 = Some (ORIG_NUMBERS ! i)"
      "\<forall>i<32. cipher_dict eo' (ORIG_PUNCTS ! i)
                 = Some (ORIG_PUNCTS ! ((i + nat (36 mod 32)) mod 32))"
      "\<forall>i<32. cipher_dict_d do' (ORIG_PUNCTS ! ((i + nat (36 mod 32)) mod 32))
                 = Some (ORIG_PUNCTS ! i)"
    unfolding alphabets_d by blast
  note both = r(1-8) r(9) [rule_format, OF a(1)] r(10) [rule_format, OF a(1)]
    r(11) [rule_format, OF a(2)] r(12) [rule_format, OF a(2)]
  have one: "\<exists>eo' do'.
      generateCipherDict ?eo = Some eo' \<and> generateCipherDict_d ?do = Some do' \<and>
      effective_shift eo' = 10 \<and> numbers_shift eo' = 6 \<and> puncts_shift eo' = 4 \<and>
      reduced_shift_len do' = 10 \<and> digits_shift_len do' = 6 \<and> puncts_shift_len do' = 4 \<and>
      cipher_dict eo' CHR ''0'' = Some CHR ''6'' \<and> cipher_dict_d do' CHR ''6'' = Some CHR ''0'' \<and>
      cipher_dict eo' CHR ''!'' = Some CHR ''%'' \<and> cipher_dict_d do' CHR ''%'' = Some CHR ''!''"
    using both
    by (intro exI [of _ eo'] exI [of _ do']) (simp add: ORIG_NUMBERS_def ORIG_PUNCTS_def)
  let ?en = "CipherOptions_default\<lparr>enc_numbers := True\<rparr>"
  let ?dn = "DecipherCtrlOpts_default\<lparr>decipher_flags := flag_assign 64 2 True\<rparr>"
  have hn: "shift_amount ?en = 5" "orig_shift_len ?dn = 5"
    and fn: "enc_numbers ?en" "flag_test (decipher_flags ?dn) 2"
    by (simp_all add: CipherOptions_default_def DecipherCtrlOpts_default_def flag_test_def
        flag_assign_def bit_simps)
  from class_shifts_independent [OF i(2) hn, THEN conjunct1] fn obtain en' dn' where
    rn: "generateCipherDict ?en = Some en'" "generateCipherDict_d ?dn = Some dn'"
      "effective_shift en' = 5 mod 26" "reduced_shift_len dn' = 5 mod 26"
      "numbers_shift en' = 5 mod 10" "digits_shift_len dn' = 5 mod 10"
      "\<forall>i<10. cipher_dict en' (ORIG_NUMBERS ! i)
                 = Some (ORIG_NUMBERS ! ((i + nat (5 mod 10)) mod 10))"
      "\<forall>i<10. cipher_dict_d dn' (ORIG_NUMBERS ! ((i + nat (5 mod 10)) mod 10))
                 = Some (ORIG_NUMBERS ! i)"
    unfolding alphabets_d by blast
  note digits = rn(1-6) rn(7) [rule_format, OF a(3)] rn(8) [rule_format, OF a(3)]
  have two: "\<exists>eo' do'.
      generateCipherDict ?en = Some eo' \<and> generateCipherDict_d ?dn = Some do' \<and>
      effective_shift eo' = 5 \<and> numbers_shift eo' = 5 \<and>
      reduced_shift_len do' = 5 \<and> digits_shift_len do' = 5 \<and>
      cipher_dict eo' CHR ''1'' = Some CHR ''6'' \<and> cipher_dict_d do' CHR ''6'' = Some CHR ''1''"
    using digits
    by (intro exI [of _ en'] exI [of _ dn']) (simp add: ORIG_NUMBERS_def ORIG_PUNCTS_def)
  let ?ep = "CipherOptions_default\<lparr>shift_amount := 36, enc_puncts := True\<rparr>"
  let ?dp = "DecipherCtrlOpts_default\<lparr>orig_shift_len := 36,
         decipher_flags := flag_assign 64 3 True\<rparr>"
  have hp: "shift_amount ?ep = 36" "orig_shift_len ?dp = 36"
    and fp: "enc_puncts ?ep" "flag_test (decipher_flags ?dp) 3"
    by (simp_all add: flag_test_def flag_assign_def bit_simps)
  from class_shifts_independent [OF i(1) hp, THEN conjunct1] fp obtain ep' dp' where
    rp: "generateCipherDict ?ep = Some ep'" "generateCipherDict_d ?dp = Some dp'"
      "effective_shift ep' = 36 mod 26" "reduced_shift_len dp' = 36 mod 26"
      "puncts_shift ep' = 36 mod 32" "puncts_shift_len dp' = 36 mod 32"
      "\<forall>i<32. cipher_dict ep' (ORIG_PUNCTS ! i)
                 = Some (ORIG_PUNCTS ! ((i + nat (36 mod 32)) mod 32))"
      "\<forall>i<32. cipher_dict_d dp' (ORIG_PUNCTS ! ((i + nat (36 mod 32)) mod 32))
                 = Some (ORIG_PUNCTS ! i)"
    unfolding alphabets_d by blast
  note puncts = rp(1-6) rp(7) [rule_format, OF a(2)] rp(8) [rule_format, OF a(2)]
  have three: "\<exists>eo' do'.
      generateCipherDict ?ep = Some eo' \<and> generateCipherDict_d ?dp = Some do' \<and>
      effective_shift eo' = 10 \<and> puncts_shift eo' = 4 \<and>
      reduced_shift_len do' = 10 \<and> puncts_shift_len do' = 4 \<and>
      cipher_dict eo' CHR ''!'' = Some CHR ''%'' \<and> cipher_dict_d do' CHR ''%'' = Some CHR ''!''"
    using puncts
    by (intro exI [of _ ep'] exI [of _ dp']) (simp add: ORIG_NUMBERS_def ORIG_PUNCTS_def)
  from one two three show ?thesis
    by (intro conjI)
qed

text \<open>
  Claim C5. In the stream transform of both programs, run on the options as \<open>main\<close>
  creates them, every byte of a line that is not in an enabled class is emitted unchanged
  at its position; this holds for the bytes of a disabled class as well, whatever the
  shift amount.
\<close>

theorem disabled_class_passes_through:
  assumes "is_int (shift_amount eo)"
    and "numbers_shift eo = 0" "puncts_shift eo = 0" "cipher_dict eo = Map.empty"
    and "is_int (orig_shift_len dopt)"
    and "digits_shift_len dopt = 0" "puncts_shift_len dopt = 0" "cipher_dict_d dopt = Map.empty"
  shows "\<exists>eo' do'. generateCipherDict eo = Some eo' \<and> generateCipherDict_d dopt = Some do' \<and>
     (\<forall>line. length (fst (transform_line (cipher_dict eo') line)) = length line \<and>
        (\<forall>i<length line. line ! i \<notin> enabled_alphabet (enc_numbers eo) (enc_puncts eo) \<longrightarrow>
            fst (transform_line (cipher_dict eo') line) ! i = line ! i)) \<and>
     (\<forall>line. length (fst (transform_line (cipher_dict_d do') line)) = length line \<and>
        (\<forall>i<length line. line ! i \<notin> enabled_alphabet (flag_test (decipher_flags dopt) 2)
                                        (flag_test (decipher_flags dopt) 3) \<longrightarrow>
            fst (transform_line (cipher_dict_d do') line) ! i = line ! i))"
proof -
  let ?k = "shift_amount eo" and ?k' = "orig_shift_len dopt"
  let ?n = "if enc_numbers eo then ?k mod 10 else numbers_shift eo"
  let ?p = "if enc_puncts eo then ?k mod 32 else puncts_shift eo"
  let ?n' = "if flag_test (decipher_flags dopt) 2 then ?k' mod 10 else digits_shift_len dopt"
  let ?p' = "if flag_test (decipher_flags dopt) 3 then ?k' mod 32 else puncts_shift_len dopt"
  let ?enc = "Map.empty(ORIG_UPPER [\<mapsto>] cshift ORIG_UPPER (?k mod 26),
          ORIG_LOWER [\<mapsto>] cshift ORIG_LOWER (?k mod 26),
          ORIG_NUMBERS [\<mapsto>] cshift ORIG_NUMBERS ?n,
          ORIG_PUNCTS [\<mapsto>] cshift ORIG_PUNCTS ?p)"
  let ?dec = "Map.empty(cshift ORIG_UPPER (?k' mod 26) [\<mapsto>] ORIG_UPPER,
          cshift ORIG_LOWER (?k' mod 26) [\<mapsto>] ORIG_LOWER,
          cshift ORIG_NUMBERS ?n' [\<mapsto>] ORIG_NUMBERS,
          cshift ORIG_PUNCTS ?p' [\<mapsto>] ORIG_PUNCTS)"
  have E: "generateCipherDict eo = Some (eo\<lparr>effective_shift := ?k mod 26, numbers_shift := ?n,
      puncts_shift := ?p, cipher_dict := ?enc\<rparr>)"
    using generateCipherDict_Some [OF assms(1)] assms(4) by simp
  have D: "generateCipherDict_d dopt = Some (dopt\<lparr>reduced_shift_len := ?k' mod 26,
      digits_shift_len := ?n', puncts_shift_len := ?p', cipher_dict_d := ?dec\<rparr>)"
    using generateCipherDict_d_Some [OF assms(5)] assms(8) by simp
  have dist': "distinct (cshift ORIG_UPPER (?k' mod 26) @ cshift ORIG_LOWER (?k' mod 26) @
       cshift ORIG_NUMBERS ?n' @ cshift ORIG_PUNCTS ?p')"
    using alphabets_distinct by (simp add: distinct_cshift set_cshift)
  have enc: "(if x \<in> dom ?enc then the (?enc x) else x) = x"
    if "x \<notin> enabled_alphabet (enc_numbers eo) (enc_puncts eo)" for x
  proof (rule passthrough_byte [OF alphabets_distinct])
    show "x \<in> set ORIG_NUMBERS \<Longrightarrow> cshift ORIG_NUMBERS ?n = ORIG_NUMBERS"
      using that assms(2) by (auto simp: enabled_alphabet_def cshift_0 split: if_splits)
    show "x \<in> set ORIG_PUNCTS \<Longrightarrow> cshift ORIG_PUNCTS ?p = ORIG_PUNCTS"
      using that assms(3) by (auto simp: enabled_alphabet_def cshift_0 split: if_splits)
    show "x \<notin> set ORIG_UPPER" "x \<notin> set ORIG_LOWER"
      using that by (auto simp: enabled_alphabet_def)
  qed (simp_all only: length_cshift)
  have dec: "(if x \<in> dom ?dec then the (?dec x) else x) = x"
    if "x \<notin> enabled_alphabet (flag_test (decipher_flags dopt) 2)
              (flag_test (decipher_flags dopt) 3)" for x
  proof (rule passthrough_byte [OF dist'])
    show "x \<in> set (cshift ORIG_NUMBERS ?n') \<Longrightarrow> ORIG_NUMBERS = cshift ORIG_NUMBERS ?n'"
      using that assms(6) by (auto simp: enabled_alphabet_def cshift_0 set_cshift split: if_splits)
    show "x \<in> set (cshift ORIG_PUNCTS ?p') \<Longrightarrow> ORIG_PUNCTS = cshift ORIG_PUNCTS ?p'"
      using that assms(7) by (auto simp: enabled_alphabet_def cshift_0 set_cshift split: if_splits)
    show "x \<notin> set (cshift ORIG_UPPER (?k' mod 26))" "x \<notin> set (cshift ORIG_LOWER (?k' mod 26))"
      using that by (auto simp: enabled_alphabet_def set_cshift)
  qed (simp_all only: length_cshift)
  from E obtain eo' where e1: "generateCipherDict eo = Some eo'" and e2: "cipher_dict eo' = ?enc"
    by simp
  from D obtain do' where d1: "generateCipherDict_d dopt = Some do'"
    and d2: "cipher_dict_d do' = ?dec"
    by simp
  note 1 = transform_line_passthrough [of "enabled_alphabet (enc_numbers eo) (enc_puncts eo)"
      "cipher_dict eo'", unfolded e2, OF enc]
  note 2 = transform_line_passthrough [of "enabled_alphabet (flag_test (decipher_flags dopt) 2)
      (flag_test (decipher_flags dopt) 3)" "cipher_dict_d do'", unfolded d2, OF dec]
  show ?thesis
    using e1 d1 1 2 unfolding e2 [symmetric] d2 [symmetric] by blast
qed

theorem disabled_class_passes_through_witness:
  "\<exists>eo' do'. generateCipherDict CipherOptions_default = Some eo' \<and>
      generateCipherDict_d DecipherCtrlOpts_default = Some do' \<and>
      fst (transform_line (cipher_dict eo') ''Room 101!'') ! 5 = CHR ''1'' \<and>
      fst (transform_line (cipher_dict_d do') ''Room 101!'') ! 8 = CHR ''!''"
proof -
  have h: "is_int (shift_amount CipherOptions_default)"
    "numbers_shift CipherOptions_default = 0" "puncts_shift CipherOptions_default = 0"
    "cipher_dict CipherOptions_default = Map.empty"
    "is_int (orig_shift_len DecipherCtrlOpts_default)"
    "digits_shift_len DecipherCtrlOpts_default = 0"
    "puncts_shift_len DecipherCtrlOpts_default = 0"
    "cipher_dict_d DecipherCtrlOpts_default = Map.empty"
    by (simp_all add: CipherOptions_default_def DecipherCtrlOpts_default_def is_int_def
        INT_MIN_def INT_MAX_def)
  have a: "(5::nat) < length ''Room 101!''" "(8::nat) < length ''Room 101!''"
    "''Room 101!'' ! 5 = CHR ''1''" "''Room 101!'' ! 8 = CHR ''!''"
    by simp_all
  have b: "CHR ''1'' \<notin> enabled_alphabet (enc_numbers CipherOptions_default)
                        (enc_puncts CipherOptions_default)"
    "CHR ''!'' \<notin> enabled_alphabet (flag_test (decipher_flags DecipherCtrlOpts_default) 2)
                        (flag_test (decipher_flags DecipherCtrlOpts_default) 3)"
    by (simp_all add: enabled_alphabet_def CipherOptions_default_def DecipherCtrlOpts_default_def
        flag_test_def ORIG_UPPER_def ORIG_LOWER_def)
  from disabled_class_passes_through [OF h] a b show ?thesis
    by metis
qed

text \<open>
  Claim C8. For every shift \<open>k\<close> and every \<open>n\<close>, the entries of the deciphering table for
  the letters are the same for \<open>k\<close> and \<open>k + 26 n\<close>, those for the digits the same for
  \<open>k\<close> and \<open>k + 10 n\<close>, those for the punctuation the same for \<open>k\<close> and \<open>k + 32 n\<close>,
  both shifts being values of type \<open>int\<close>.
\<close>

theorem table_periodic:
  assumes "is_int k"
  shows "(is_int (k + n * 26) \<longrightarrow>
           (\<exists>r1 r2. generateCipherDict_d (dopt\<lparr>orig_shift_len := k\<rparr>) = Some r1 \<and>
              generateCipherDict_d (dopt\<lparr>orig_shift_len := k + n * 26\<rparr>) = Some r2 \<and>
              reduced_shift_len r1 = reduced_shift_len r2 \<and>
              (\<forall>x \<in> set ORIG_UPPERCASE \<union> set ORIG_LOWERCASE.
                  cipher_dict_d r1 x = cipher_dict_d r2 x))) \<and>
         (is_int (k + n * 10) \<longrightarrow>
           (\<exists>r1 r2. generateCipherDict_d (dopt\<lparr>orig_shift_len := k\<rparr>) = Some r1 \<and>
              generateCipherDict_d (dopt\<lparr>orig_shift_len := k + n * 10\<rparr>) = Some r2 \<and>
              digits_shift_len r1 = digits_shift_len r2 \<and>
              (\<forall>x \<in> set ORIG_DIGITS. cipher_dict_d r1 x = cipher_dict_d r2 x))) \<and>
         (is_int (k + n * 32) \<longrightarrow>
           (\<exists>r1 r2. generateCipherDict_d (dopt\<lparr>orig_shift_len := k\<rparr>) = Some r1 \<and>
              generateCipherDict_d (dopt\<lparr>orig_shift_len := k + n * 32\<rparr>) = Some r2 \<and>
              puncts_shift_len r1 = puncts_shift_len r2 \<and>
              (\<forall>x \<in> set ORIG_PUNCTUATION_SYMBOLS. cipher_dict_d r1 x = cipher_dict_d r2 x)))"
proof -
  have gen: "\<exists>r1 r2. generateCipherDict_d (dopt\<lparr>orig_shift_len := k\<rparr>) = Some r1 \<and>
              generateCipherDict_d (dopt\<lparr>orig_shift_len := k'\<rparr>) = Some r2 \<and>
              (k mod 26 = k' mod 26 \<longrightarrow> reduced_shift_len r1 = reduced_shift_len r2 \<and>
                 (\<forall>x \<in> set ORIG_UPPER \<union> set ORIG_LOWER. cipher_dict_d r1 x = cipher_dict_d r2 x)) \<and>
              (k mod 10 = k' mod 10 \<longrightarrow> digits_shift_len r1 = digits_shift_len r2 \<and>
                 (\<forall>x \<in> set ORIG_NUMBERS. cipher_dict_d r1 x = cipher_dict_d r2 x)) \<and>
              (k mod 32 = k' mod 32 \<longrightarrow> puncts_shift_len r1 = puncts_shift_len r2 \<and>
                 (\<forall>x \<in> set ORIG_PUNCTS. cipher_dict_d r1 x = cipher_dict_d r2 x))"
    if k': "is_int k'" for k'
  proof -
    let ?n = "\<lambda>k. if flag_test (decipher_flags dopt) 2 then k mod 10 else digits_shift_len dopt"
    let ?p = "\<lambda>k. if flag_test (decipher_flags dopt) 3 then k mod 32 else puncts_shift_len dopt"
    let ?dec = "\<lambda>k. (cipher_dict_d dopt)(cshift ORIG_UPPER (k mod 26) [\<mapsto>] ORIG_UPPER,
          cshift ORIG_LOWER (k mod 26) [\<mapsto>] ORIG_LOWER,
          cshift ORIG_NUMBERS (?n k) [\<mapsto>] ORIG_NUMBERS,
          cshift ORIG_PUNCTS (?p k) [\<mapsto>] ORIG_PUNCTS)"
    have D: "generateCipherDict_d (dopt\<lparr>orig_shift_len := j\<rparr>) =
        Some (dopt\<lparr>orig_shift_len := j, reduced_shift_len := j mod 26,
          digits_shift_len := ?n j, puncts_shift_len := ?p j, cipher_dict_d := ?dec j\<rparr>)"
      if "is_int j" for j
      using generateCipherDict_d_Some [of "dopt\<lparr>orig_shift_len := j\<rparr>"] that by simp
    have U: "?dec k x = ?dec k' x" if "k mod 26 = k' mod 26" "x \<in> set ORIG_UPPER \<union> set ORIG_LOWER"
      for x
      using that alphabets_distinct
      by (intro layers_agree(2) [OF alphabets_distinct]) auto
    have N: "?dec k x = ?dec k' x" if "k mod 10 = k' mod 10" "x \<in> set ORIG_NUMBERS" for x
      using that alphabets_distinct
      by (intro layers_agree(2) [OF alphabets_distinct]) auto
    have P: "?dec k x = ?dec k' x" if "k mod 32 = k' mod 32" "x \<in> set ORIG_PUNCTS" for x
      using that alphabets_distinct
      by (intro layers_agree(2) [OF alphabets_distinct]) auto
    from D [OF assms] obtain r1 where r1: "generateCipherDict_d (dopt\<lparr>orig_shift_len := k\<rparr>) = Some r1"
      "cipher_dict_d r1 = ?dec k" "reduced_shift_len r1 = k mod 26" "digits_shift_len r1 = ?n k"
      "puncts_shift_len r1 = ?p k"
      by simp
    from D [OF k'] obtain r2 where r2: "generateCipherDict_d (dopt\<lparr>orig_shift_len := k'\<rparr>) = Some r2"
      "cipher_dict_d r2 = ?dec k'" "reduced_shift_len r2 = k' mod 26" "digits_shift_len r2 = ?n k'"
      "puncts_shift_len r2 = ?p k'"
      by simp
    have a: "k mod 26 = k' mod 26 \<longrightarrow> reduced_shift_len r1 = reduced_shift_len r2 \<and>
        (\<forall>x \<in> set ORIG_UPPER \<union> set ORIG_LOWER. cipher_dict_d r1 x = cipher_dict_d r2 x)"
      unfolding r1(2,3) r2(2,3) using U by blast
    have b: "k mod 10 = k' mod 10 \<longrightarrow> digits_shift_len r1 = digits_shift_len r2 \<and>
        (\<forall>x \<in> set ORIG_NUMBERS. cipher_dict_d r1 x = cipher_dict_d r2 x)"
      unfolding r1(2,4) r2(2,4) using N by simp
    have c: "k mod 32 = k' mod 32 \<longrightarrow> puncts_shift_len r1 = puncts_shift_len r2 \<and>
        (\<forall>x \<in> set ORIG_PUNCTS. cipher_dict_d r1 x = cipher_dict_d r2 x)"
      unfolding r1(2,5) r2(2,5) using P by simp
    show ?thesis
      using r1(1) r2(1) a b c by blast
  qed
  have m: "k mod 26 = (k + n * 26) mod 26" "k mod 10 = (k + n * 10) mod 10"
    "k mod 32 = (k + n * 32) mod 32"
    by simp_all
  show ?thesis
    unfolding alphabets_d
  proof (intro conjI impI)
    assume "is_int (k + n * 26)"
    from gen [OF this] m(1)
    show "\<exists>r1 r2. generateCipherDict_d (dopt\<lparr>orig_shift_len := k\<rparr>) = Some r1 \<and>
              generateCipherDict_d (dopt\<lparr>orig_shift_len := k + n * 26\<rparr>) = Some r2 \<and>
              reduced_shift_len r1 = reduced_shift_len r2 \<and>
              (\<forall>x \<in> set ORIG_UPPER \<union> set ORIG_LOWER. cipher_dict_d r1 x = cipher_dict_d r2 x)"
      by blast
  next
    assume "is_int (k + n * 10)"
    from gen [OF this] m(2)
    show "\<exists>r1 r2. generateCipherDict_d (dopt\<lparr>orig_shift_len := k\<rparr>) = Some r1 \<and>
              generateCipherDict_d (dopt\<lparr>orig_shift_len := k + n * 10\<rparr>) = Some r2 \<and>
              digits_shift_len r1 = digits_shift_len r2 \<and>
              (\<forall>x \<in> set ORIG_NUMBERS. cipher_dict_d r1 x = cipher_dict_d r2 x)"
      by blast
  next
    assume "is_int (k + n * 32)"
    from gen [OF this] m(3)
    show "\<exists>r1 r2. generateCipherDict_d (dopt\<lparr>orig_shift_len := k\<rparr>) = Some r1 \<and>
              generateCipherDict_d (dopt\<lparr>orig_shift_len := k + n * 32\<rparr>) = Some r2 \<and>
              puncts_shift_len r1 = puncts_shift_len r2 \<and>
              (\<forall>x \<in> set ORIG_PUNCTS. cipher_dict_d r1 x = cipher_dict_d r2 x)"
      by blast
  qed
qed

theorem table_periodic_witness:
  "(\<exists>r1 r2. generateCipherDict_d (DecipherCtrlOpts_default\<lparr>orig_shift_len := 5\<rparr>) = Some r1 \<and>
      generateCipherDict_d (DecipherCtrlOpts_default\<lparr>orig_shift_len := 5 + (- 4) * 26\<rparr>) = Some r2 \<and>
      cipher_dict_d r1 CHR ''F'' = cipher_dict_d r2 CHR ''F'') \<and>
   (\<exists>r1 r2. generateCipherDict_d (DecipherCtrlOpts_default\<lparr>orig_shift_len := 5\<rparr>) = Some r1 \<and>
      generateCipherDict_d (DecipherCtrlOpts_default\<lparr>orig_shift_len := 5 + (- 4) * 10\<rparr>) = Some r2 \<and>
      cipher_dict_d r1 CHR ''7'' = cipher_dict_d r2 CHR ''7'') \<and>
   (\<exists>r1 r2. generateCipherDict_d (DecipherCtrlOpts_default\<lparr>orig_shift_len := 5\<rparr>) = Some r1 \<and>
      generateCipherDict_d (DecipherCtrlOpts_default\<lparr>orig_shift_len := 5 + (- 4) * 32\<rparr>) = Some r2 \<and>
      cipher_dict_d r1 CHR ''?'' = cipher_dict_d r2 CHR ''?'')"
proof -
  have h: "is_int 5" "is_int (5 + (- 4) * 26)" "is_int (5 + (- 4) * 10)" "is_int (5 + (- 4) * 32)"
    by (simp_all add: is_int_def INT_MIN_def INT_MAX_def)
  have a: "CHR ''F'' \<in> set ORIG_UPPERCASE \<union> set ORIG_LOWERCASE" "CHR ''7'' \<in> set ORIG_DIGITS"
    "CHR ''?'' \<in> set ORIG_PUNCTUATION_SYMBOLS"
    by (simp_all add: ORIG_UPPERCASE_def ORIG_DIGITS_def ORIG_PUNCTUATION_SYMBOLS_def)
  from table_periodic [OF h(1), of "- 4" DecipherCtrlOpts_default] h(2-4) a show ?thesis
    by blast
qed

text \<open>
  Claim C4, as the programs have it. A class that is not enabled keeps the rotation 0 and
  its loop still runs: every byte of a disabled class's alphabet is a key of the table,
  mapped to itself, so that it passes through by an identity entry. Only the bytes
  outside the four alphabets are absent from the table.
\<close>

theorem disabled_class_identity_entries:
  assumes "is_int (shift_amount eo)"
    and "numbers_shift eo = 0" "puncts_shift eo = 0" "cipher_dict eo = Map.empty"
    and "is_int (orig_shift_len dopt)"
    and "digits_shift_len dopt = 0" "puncts_shift_len dopt = 0" "cipher_dict_d dopt = Map.empty"
  shows "\<exists>eo' do'. generateCipherDict eo = Some eo' \<and> generateCipherDict_d dopt = Some do' \<and>
     (\<not> enc_numbers eo \<longrightarrow> (\<forall>x \<in> set ORIG_NUMBERS. cipher_dict eo' x = Some x)) \<and>
     (\<not> enc_puncts eo \<longrightarrow> (\<forall>x \<in> set ORIG_PUNCTS. cipher_dict eo' x = Some x)) \<and>
     (\<forall>x. x \<notin> set ORIG_UPPER \<union> set ORIG_LOWER \<union> set ORIG_NUMBERS \<union> set ORIG_PUNCTS
          \<longrightarrow> cipher_dict eo' x = None) \<and>
     (\<not> flag_test (decipher_flags dopt) 2 \<longrightarrow>
        (\<forall>x \<in> set ORIG_DIGITS. cipher_dict_d do' x = Some x)) \<and>
     (\<not> flag_test (decipher_flags dopt) 3 \<longrightarrow>
        (\<forall>x \<in> set ORIG_PUNCTUATION_SYMBOLS. cipher_dict_d do' x = Some x)) \<and>
     (\<forall>x. x \<notin> set ORIG_UPPERCASE \<union> set ORIG_LOWERCASE \<union> set ORIG_DIGITS
               \<union> set ORIG_PUNCTUATION_SYMBOLS
          \<longrightarrow> cipher_dict_d do' x = None)"
proof -
  let ?k = "shift_amount eo" and ?k' = "orig_shift_len dopt"
  let ?n = "if enc_numbers eo then ?k mod 10 else numbers_shift eo"
  let ?p = "if enc_puncts eo then ?k mod 32 else puncts_shift eo"
  let ?n' = "if flag_test (decipher_flags dopt) 2 then ?k' mod 10 else digits_shift_len dopt"
  let ?p' = "if flag_test (decipher_flags dopt) 3 then ?k' mod 32 else puncts_shift_len dopt"
  let ?enc = "(cipher_dict eo)(ORIG_UPPER [\<mapsto>] cshift ORIG_UPPER (?k mod 26),
          ORIG_LOWER [\<mapsto>] cshift ORIG_LOWER (?k mod 26),
          ORIG_NUMBERS [\<mapsto>] cshift ORIG_NUMBERS ?n,
          ORIG_PUNCTS [\<mapsto>] cshift ORIG_PUNCTS ?p)"
  let ?dec = "(cipher_dict_d dopt)(cshift ORIG_UPPER (?k' mod 26) [\<mapsto>] ORIG_UPPER,
          cshift ORIG_LOWER (?k' mod 26) [\<mapsto>] ORIG_LOWER,
          cshift ORIG_NUMBERS ?n' [\<mapsto>] ORIG_NUMBERS,
          cshift ORIG_PUNCTS ?p' [\<mapsto>] ORIG_PUNCTS)"
  from generateCipherDict_Some [OF assms(1)] obtain eo' where
    e: "generateCipherDict eo = Some eo'" "cipher_dict eo' = ?enc"
    by simp
  from generateCipherDict_d_Some [OF assms(5)] obtain do' where
    d: "generateCipherDict_d dopt = Some do'" "cipher_dict_d do' = ?dec"
    by simp
  have e1: "?enc x = Some x" if "\<not> enc_numbers eo" "x \<in> set ORIG_NUMBERS" for x
    using identity_entries(1) [OF alphabets_distinct that(2), of "cipher_dict eo"] that(1) assms(2)
    by simp
  have e2: "?enc x = Some x" if "\<not> enc_puncts eo" "x \<in> set ORIG_PUNCTS" for x
    using identity_entries(2) [OF alphabets_distinct that(2), of "cipher_dict eo"] that(1) assms(3)
    by simp
  have e3: "?enc x = None"
    if "x \<notin> set ORIG_UPPER \<union> set ORIG_LOWER \<union> set ORIG_NUMBERS \<union> set ORIG_PUNCTS" for x
    using absent_entries(1) [OF alphabets_distinct, of x "cipher_dict eo"] that assms(4)
    by simp
  have d1: "?dec x = Some x" if "\<not> flag_test (decipher_flags dopt) 2" "x \<in> set ORIG_NUMBERS"
    for x
    using identity_entries(3) [OF alphabets_distinct that(2), of "cipher_dict_d dopt"] that(1)
      assms(6)
    by simp
  have d2: "?dec x = Some x" if "\<not> flag_test (decipher_flags dopt) 3" "x \<in> set ORIG_PUNCTS"
    for x
    using identity_entries(4) [OF alphabets_distinct that(2), of "cipher_dict_d dopt"] that(1)
      assms(7)
    by simp
  have d3: "?dec x = None"
    if "x \<notin> set ORIG_UPPER \<union> set ORIG_LOWER \<union> set ORIG_NUMBERS \<union> set ORIG_PUNCTS" for x
    using absent_entries(2) [OF alphabets_distinct, of x "cipher_dict_d dopt"] that assms(8)
    by simp
  show ?thesis
    using e(1) d(1) e1 e2 e3 d1 d2 d3 unfolding e(2) [symmetric] d(2) [symmetric] alphabets_d
    by blast
qed

theorem disabled_class_identity_entries_witness:
  "\<exists>eo' do'. generateCipherDict CipherOptions_default = Some eo' \<and>
      generateCipherDict_d DecipherCtrlOpts_default = Some do' \<and>
      cipher_dict eo' CHR ''7'' = Some CHR ''7'' \<and> cipher_dict eo' CHR ''?'' = Some CHR ''?'' \<and>
      cipher_dict eo' CHR '' '' = None \<and>
      cipher_dict_d do' CHR ''7'' = Some CHR ''7'' \<and> cipher_dict_d do' CHR ''?'' = Some CHR ''?'' \<and>
      cipher_dict_d do' CHR '' '' = None"
proof -
  have h: "is_int (shift_amount CipherOptions_default)"
    "numbers_shift CipherOptions_default = 0" "puncts_shift CipherOptions_default = 0"
    "cipher_dict CipherOptions_default = Map.empty"
    "is_int (orig_shift_len DecipherCtrlOpts_default)"
    "digits_shift_len DecipherCtrlOpts_default = 0"
    "puncts_shift_len DecipherCtrlOpts_default = 0"
    "cipher_dict_d DecipherCtrlOpts_default = Map.empty"
    by (simp_all add: CipherOptions_default_def DecipherCtrlOpts_default_def is_int_def
        INT_MIN_def INT_MAX_def)
  have f: "\<not> enc_numbers CipherOptions_default" "\<not> enc_puncts CipherOptions_default"
    "\<not> flag_test (decipher_flags DecipherCtrlOpts_default) 2"
    "\<not> flag_test (decipher_flags DecipherCtrlOpts_default) 3"
    by (simp_all add: CipherOptions_default_def DecipherCtrlOpts_default_def flag_test_def)
  have a: "CHR ''7'' \<in> set ORIG_NUMBERS" "CHR ''?'' \<in> set ORIG_PUNCTS"
    "CHR '' '' \<notin> set ORIG_UPPER \<union> set ORIG_LOWER \<union> set ORIG_NUMBERS \<union> set ORIG_PUNCTS"
    by (simp_all add: ORIG_UPPER_def ORIG_LOWER_def ORIG_NUMBERS_def ORIG_PUNCTS_def)
  from disabled_class_identity_entries [OF h] f a show ?thesis
    unfolding alphabets_d by blast
qed

theorem disabled_class_absent_counterexample:
  "\<not> enc_numbers CipherOptions_default \<and> CHR ''0'' \<in> set ORIG_NUMBERS \<and>
   generateCipherDict CipherOptions_default \<noteq> None \<and>
   cipher_dict (the (generateCipherDict CipherOptions_default)) CHR ''0'' = Some CHR ''0'' \<and>
   CHR ''0'' \<in> dom (cipher_dict (the (generateCipherDict CipherOptions_default))) \<and>
   \<not> flag_test (decipher_flags DecipherCtrlOpts_default) 2 \<and> CHR ''0'' \<in> set ORIG_DIGITS \<and>
   generateCipherDict_d DecipherCtrlOpts_default \<noteq> None \<and>
   cipher_dict_d (the (generateCipherDict_d DecipherCtrlOpts_default)) CHR ''0'' = Some CHR ''0'' \<and>
   CHR ''0'' \<in> dom (cipher_dict_d (the (generateCipherDict_d DecipherCtrlOpts_default)))"
proof -
  have i: "is_int (shift_amount CipherOptions_default)"
    "is_int (orig_shift_len DecipherCtrlOpts_default)"
    by (simp_all add: is_int_def INT_MIN_def INT_MAX_def CipherOptions_default_def
        DecipherCtrlOpts_default_def)
  have z: "CHR ''0'' \<in> set ORIG_NUMBERS"
    by (simp add: ORIG_NUMBERS_def)
  have f: "\<not> enc_numbers CipherOptions_default" "numbers_shift CipherOptions_default = 0"
    "\<not> flag_test (decipher_flags DecipherCtrlOpts_default) 2"
    "digits_shift_len DecipherCtrlOpts_default = 0"
    by (simp_all add: CipherOptions_default_def DecipherCtrlOpts_default_def flag_test_def)
  have e: "cipher_dict (the (generateCipherDict CipherOptions_default)) CHR ''0'' = Some CHR ''0''"
    unfolding generateCipherDict_Some [OF i(1)] option.sel
    using identity_entries(1) [OF alphabets_distinct z,
        of "cipher_dict CipherOptions_default"] f(1,2)
    by simp
  have d: "cipher_dict_d (the (generateCipherDict_d DecipherCtrlOpts_default)) CHR ''0''
             = Some CHR ''0''"
    unfolding generateCipherDict_d_Some [OF i(2)] option.sel
    using identity_entries(3) [OF alphabets_distinct z,
        of "cipher_dict_d DecipherCtrlOpts_default"] f(3,4)
    by simp
  have s: "generateCipherDict CipherOptions_default \<noteq> None"
    "generateCipherDict_d DecipherCtrlOpts_default \<noteq> None"
    using generateCipherDict_Some [OF i(1)] generateCipherDict_d_Some [OF i(2)] by simp_all
  show ?thesis
    using e d f(1,3) z s by (simp only: domI alphabets_d simp_thms)
qed

section \<open>Properties of the command-line parsers\<close>

lemma filter_tail_none:
  "x \<notin> set cs \<Longrightarrow> filter (\<lambda>i. (x # cs) ! i = x) [Suc 0..<Suc (length cs)] = []"
  by (auto simp: filter_empty_conv nth_Cons split: nat.splits)

lemma find_last_of_dash_only_first:
  assumes "CHR ''-'' \<notin> set cs"
  shows "find_last_of_gt_0 (CHR ''-'' # cs) CHR ''-'' = False"
proof -
  have a: "[0..<length (CHR ''-'' # cs)] = 0 # [Suc 0..<Suc (length cs)]"
    by (metis length_Cons upt_conv_Cons zero_less_Suc)
  have "filter (\<lambda>i. (CHR ''-'' # cs) ! i = CHR ''-'') [0..<length (CHR ''-'' # cs)] = [0]"
    by (simp only: a filter.simps nth_Cons_0 refl if_True filter_tail_none [OF assms])
  then show ?thesis
    by (simp add: find_last_of_gt_0_def find_last_of_def)
qed

lemma combined_token_not_named:
  assumes "CHR ''-'' \<notin> set cs" "1 < length cs"
  shows "CHR ''-'' # cs \<notin> {''-i'', ''--ifile'', ''-o'', ''--ofile'', ''-s'', ''--shift-amount'',
     ''--shift-nums'', ''--shift-numbers'', ''--shift-puncts'', ''--shift-all'', ''--help'',
     ''--show-log''}"
  using assms by auto

lemma parseCommandLine_for_unknown:
  assumes "\<exists>c \<in> set cs. c \<notin> {CHR ''a'', CHR ''l'', CHR ''n'', CHR ''p'', CHR ''h''}"
  shows "\<exists>c \<in> set cs. c \<notin> {CHR ''a'', CHR ''l'', CHR ''n'', CHR ''p'', CHR ''h''} \<and>
           parseCommandLine_for curropt sz cs pr n opts
             = Throw (invalid_argument (sco_errmsg c curropt))
                 (opts\<lparr>display_log_info := False, enc_numbers := False, enc_puncts := False\<rparr>)"
  using assms
proof (induction cs arbitrary: pr n opts)
  case Nil
  then show ?case by simp
next
  case (Cons c cs)
  show ?case
  proof (cases "c \<in> {CHR ''a'', CHR ''l'', CHR ''n'', CHR ''p'', CHR ''h''}")
    case False
    then show ?thesis by simp
  next
    case True
    then have rest: "\<exists>c \<in> set cs. c \<notin> {CHR ''a'', CHR ''l'', CHR ''n'', CHR ''p'', CHR ''h''}"
      using Cons.prems by auto
    consider "c = CHR ''a''" | "c = CHR ''n''" | "c = CHR ''p''" | "c = CHR ''l''" | "c = CHR ''h''"
      using True by auto
    then show ?thesis
    proof cases
      case 1
      then show ?thesis
        using Cons.IH [OF rest, of pr n "opts\<lparr>enc_numbers := True, enc_puncts := True\<rparr>"]
        by auto
    next
      case 2
      then show ?thesis
        using Cons.IH [OF rest, of pr n "opts\<lparr>enc_numbers := True\<rparr>"] by auto
    next
      case 3
      then show ?thesis
        using Cons.IH [OF rest, of pr n "opts\<lparr>enc_puncts := True\<rparr>"] by auto
    next
      case 4
      then show ?thesis
        using Cons.IH [OF rest, of pr n "opts\<lparr>display_log_info := True\<rparr>"] by auto
    next
      case 5
      then show ?thesis
        using Cons.IH [OF rest, of 1 sz opts] by auto
    qed
  qed
qed

lemma parseCommandLine_body_unknown:
  assumes "usr_cmdln ! opt_number = CHR ''-'' # cs" "CHR ''-'' \<notin> set cs" "1 < length cs"
    and "\<exists>c \<in> set cs. c \<notin> {CHR ''a'', CHR ''l'', CHR ''n'', CHR ''p'', CHR ''h''}"
  shows "\<exists>c \<in> set cs. c \<notin> {CHR ''a'', CHR ''l'', CHR ''n'', CHR ''p'', CHR ''h''} \<and>
           parseCommandLine_body usr_cmdln opt_number pr opts
             = Throw (invalid_argument (sco_errmsg c (CHR ''-'' # cs)))
                 (opts\<lparr>display_log_info := False, enc_numbers := False, enc_puncts := False\<rparr>)"
proof -
  from parseCommandLine_for_unknown [OF assms(4), of "CHR ''-'' # cs" "length usr_cmdln" pr
      opt_number opts]
  obtain c where c: "c \<in> set cs" "c \<notin> {CHR ''a'', CHR ''l'', CHR ''n'', CHR ''p'', CHR ''h''}"
    "parseCommandLine_for (CHR ''-'' # cs) (length usr_cmdln) cs pr opt_number opts
             = Throw (invalid_argument (sco_errmsg c (CHR ''-'' # cs)))
                 (opts\<lparr>display_log_info := False, enc_numbers := False, enc_puncts := False\<rparr>)"
    by blast
  have "parseCommandLine_body usr_cmdln opt_number pr opts
             = Throw (invalid_argument (sco_errmsg c (CHR ''-'' # cs)))
                 (opts\<lparr>display_log_info := False, enc_numbers := False, enc_puncts := False\<rparr>)"
    using combined_token_not_named [OF assms(2,3)] find_last_of_dash_only_first [OF assms(2)]
      assms(1) c(3)
    by (simp add: parseCommandLine_body_def)
  then show ?thesis using c(1,2) by blast
qed

lemma flag_test_assign:
  "i < 8 \<Longrightarrow> flag_test (flag_assign w i b) j = (if j = i then b else flag_test w j)"
  by (auto simp: flag_test_def flag_assign_def bit_set_bit_iff bit_unset_bit_iff)

lemma parseSingleCharOptions_while_append:
  "parseSingleCharOptions_while (xs @ ys) r opts =
     parseSingleCharOptions_while ys (fst (parseSingleCharOptions_while xs r opts))
       (snd (parseSingleCharOptions_while xs r opts))"
  by (induction xs arbitrary: r opts) simp_all

lemma parseSingleCharOptions_while_step:
  "\<exists>r1 w1. (\<forall>cs. parseSingleCharOptions_while (c # cs) r opts
                    = parseSingleCharOptions_while cs r1 (opts\<lparr>decipher_flags := w1\<rparr>)) \<and>
           flag_test w1 1 = flag_test (decipher_flags opts) 1"
proof -
  consider "c = CHR ''a''" | "c = CHR ''n''" | "c = CHR ''p''" | "c = CHR ''l''" | "c = CHR ''h''"
    | "c \<notin> {CHR ''a'', CHR ''n'', CHR ''p'', CHR ''l'', CHR ''h''}"
    by blast
  then show ?thesis
  proof cases
    case 1
    then show ?thesis
      by (intro exI [of _ r]
          exI [of _ "flag_assign (flag_assign (decipher_flags opts) 2 True) 3 True"])
        (simp add: flag_test_assign)
  next
    case 2
    then show ?thesis
      by (intro exI [of _ r] exI [of _ "flag_assign (decipher_flags opts) 2 True"])
        (simp add: flag_test_assign)
  next
    case 3
    then show ?thesis
      by (intro exI [of _ r] exI [of _ "flag_assign (decipher_flags opts) 3 True"])
        (simp add: flag_test_assign)
  next
    case 4
    then show ?thesis
      by (intro exI [of _ r] exI [of _ "flag_assign (decipher_flags opts) 7 True"])
        (simp add: flag_test_assign)
  next
    case 5
    then show ?thesis
      by (intro exI [of _ CMDLN_HELP_REQ] exI [of _ "flag_assign (decipher_flags opts) 0 True"])
        (simp add: flag_test_assign)
  next
    case 6
    then show ?thesis
      by (intro exI [of _ CMDLN_USER_ERROR]
          exI [of _ "flag_assign (flag_assign (flag_assign (flag_assign (decipher_flags opts)
               2 False) 3 False) 7 False) 0 False"])
        (simp add: flag_test_assign)
  qed
qed

lemma parseSingleCharOptions_while_flags_only:
  "\<exists>w. snd (parseSingleCharOptions_while cs r opts) = opts\<lparr>decipher_flags := w\<rparr> \<and>
       flag_test w 1 = flag_test (decipher_flags opts) 1"
proof (induction cs arbitrary: r opts)
  case Nil
  have "opts = opts\<lparr>decipher_flags := decipher_flags opts\<rparr>" by simp
  then show ?case by (metis parseSingleCharOptions_while.simps(1) snd_conv)
next
  case (Cons c cs)
  from parseSingleCharOptions_while_step [of c r opts] obtain r1 w1 where
    s: "parseSingleCharOptions_while (c # cs) r opts
          = parseSingleCharOptions_while cs r1 (opts\<lparr>decipher_flags := w1\<rparr>)"
    and w1: "flag_test w1 1 = flag_test (decipher_flags opts) 1"
    by blast
  from Cons.IH [of r1 "opts\<lparr>decipher_flags := w1\<rparr>"] obtain w where
    w: "snd (parseSingleCharOptions_while cs r1 (opts\<lparr>decipher_flags := w1\<rparr>))
          = opts\<lparr>decipher_flags := w\<rparr>" "flag_test w 1 = flag_test w1 1"
    by auto
  show ?case
    unfolding s using w w1 by auto
qed

lemma parseSingleCharOptions_while_known:
  assumes "set cs \<subseteq> {CHR ''a'', CHR ''n'', CHR ''p'', CHR ''l''}"
  shows "fst (parseSingleCharOptions_while cs r opts) = r \<and>
    (flag_test (decipher_flags (snd (parseSingleCharOptions_while cs r opts))) 2 \<longleftrightarrow>
       flag_test (decipher_flags opts) 2 \<or> CHR ''a'' \<in> set cs \<or> CHR ''n'' \<in> set cs) \<and>
    (flag_test (decipher_flags (snd (parseSingleCharOptions_while cs r opts))) 3 \<longleftrightarrow>
       flag_test (decipher_flags opts) 3 \<or> CHR ''a'' \<in> set cs \<or> CHR ''p'' \<in> set cs) \<and>
    (flag_test (decipher_flags (snd (parseSingleCharOptions_while cs r opts))) 7 \<longleftrightarrow>
       flag_test (decipher_flags opts) 7 \<or> CHR ''l'' \<in> set cs) \<and>
    (flag_test (decipher_flags (snd (parseSingleCharOptions_while cs r opts))) 0 \<longleftrightarrow>
       flag_test (decipher_flags opts) 0)"
  using assms
proof (induction cs arbitrary: opts)
  case Nil
  then show ?case by simp
next
  case (Cons c cs)
  then have cs: "set cs \<subseteq> {CHR ''a'', CHR ''n'', CHR ''p'', CHR ''l''}"
    and c: "c = CHR ''a'' \<or> c = CHR ''n'' \<or> c = CHR ''p'' \<or> c = CHR ''l''"
    by auto
  note IH = Cons.IH [OF cs]
  consider "c = CHR ''a''" | "c = CHR ''n''" | "c = CHR ''p''" | "c = CHR ''l''"
    using c by blast
  then show ?case
  proof cases
    case 1
    then show ?thesis
      using IH [of "opts\<lparr>decipher_flags :=
             flag_assign (flag_assign (decipher_flags opts) 2 True) 3 True\<rparr>"]
      by (simp add: flag_test_assign)
  next
    case 2
    then show ?thesis
      using IH [of "opts\<lparr>decipher_flags := flag_assign (decipher_flags opts) 2 True\<rparr>"]
      by (simp add: flag_test_assign)
  next
    case 3
    then show ?thesis
      using IH [of "opts\<lparr>decipher_flags := flag_assign (decipher_flags opts) 3 True\<rparr>"]
      by (simp add: flag_test_assign)
  next
    case 4
    then show ?thesis
      using IH [of "opts\<lparr>decipher_flags := flag_assign (decipher_flags opts) 7 True\<rparr>"]
      by (simp add: flag_test_assign)
  qed
qed

lemma parseSingleCharOptions_unknown:
  assumes dash: "CHR ''-'' \<notin> set (pre @ x # post)"
    and x: "x \<notin> {CHR ''a'', CHR ''n'', CHR ''p'', CHR ''l'', CHR ''h''}"
    and post: "set post \<subseteq> {CHR ''a'', CHR ''n'', CHR ''p'', CHR ''l''}"
  shows "\<exists>w. parseSingleCharOptions (CHR ''-'' # pre @ x # post) opts
               = (CMDLN_USER_ERROR, opts\<lparr>decipher_flags := w\<rparr>) \<and>
    (flag_test w 2 \<longleftrightarrow> CHR ''a'' \<in> set post \<or> CHR ''n'' \<in> set post) \<and>
    (flag_test w 3 \<longleftrightarrow> CHR ''a'' \<in> set post \<or> CHR ''p'' \<in> set post) \<and>
    (flag_test w 7 \<longleftrightarrow> CHR ''l'' \<in> set post) \<and>
    \<not> flag_test w 0 \<and>
    (flag_test w 1 \<longleftrightarrow> flag_test (decipher_flags opts) 1)"
proof -
  let ?clear = "\<lambda>w. flag_assign (flag_assign (flag_assign (flag_assign w
               2 False) 3 False) 7 False) 0 False"
  obtain r1 o1 where p: "parseSingleCharOptions_while pre CMDLN_OK opts = (r1, o1)"
    by (cases "parseSingleCharOptions_while pre CMDLN_OK opts") blast
  from parseSingleCharOptions_while_flags_only [of pre CMDLN_OK opts] p obtain w1 where
    w1: "o1 = opts\<lparr>decipher_flags := w1\<rparr>" "flag_test w1 1 = flag_test (decipher_flags opts) 1"
    by auto
  let ?o2 = "opts\<lparr>decipher_flags := ?clear w1\<rparr>"
  have step: "parseSingleCharOptions_while (x # post) r1 o1
      = parseSingleCharOptions_while post CMDLN_USER_ERROR ?o2"
    using x w1(1) by simp
  obtain r3 o3 where q: "parseSingleCharOptions_while post CMDLN_USER_ERROR ?o2 = (r3, o3)"
    by (cases "parseSingleCharOptions_while post CMDLN_USER_ERROR ?o2") blast
  from parseSingleCharOptions_while_flags_only [of post CMDLN_USER_ERROR ?o2] q obtain w where
    w: "o3 = opts\<lparr>decipher_flags := w\<rparr>" "flag_test w 1 = flag_test (?clear w1) 1"
    by auto
  note k = parseSingleCharOptions_while_known [OF post, of CMDLN_USER_ERROR ?o2, unfolded q]
  have r3: "r3 = CMDLN_USER_ERROR"
    using k by simp
  have "parseSingleCharOptions_while (pre @ x # post) CMDLN_OK opts = (r3, o3)"
    by (simp only: parseSingleCharOptions_while_append [of pre] p fst_conv snd_conv step q)
  then have all: "parseSingleCharOptions_while (pre @ x # post) CMDLN_OK opts
      = (CMDLN_USER_ERROR, opts\<lparr>decipher_flags := w\<rparr>)"
    using r3 w(1) by simp
  have "parseSingleCharOptions (CHR ''-'' # pre @ x # post) opts
      = (CMDLN_USER_ERROR, opts\<lparr>decipher_flags := w\<rparr>)"
    using find_last_of_dash_only_first [OF dash] all
    by (simp add: parseSingleCharOptions_def)
  moreover have "(flag_test w 2 \<longleftrightarrow> CHR ''a'' \<in> set post \<or> CHR ''n'' \<in> set post)"
    "(flag_test w 3 \<longleftrightarrow> CHR ''a'' \<in> set post \<or> CHR ''p'' \<in> set post)"
    "(flag_test w 7 \<longleftrightarrow> CHR ''l'' \<in> set post)" "\<not> flag_test w 0"
    "(flag_test w 1 \<longleftrightarrow> flag_test (decipher_flags opts) 1)"
    using k w w1(2) by (simp_all add: flag_test_assign)
  ultimately show ?thesis by blast
qed

lemma parseCommandLine_while_d_unknown:
  assumes dash: "CHR ''-'' \<notin> set (pre @ x # post)"
    and len: "1 < length (pre @ x # post)"
    and x: "x \<notin> {CHR ''a'', CHR ''n'', CHR ''p'', CHR ''l'', CHR ''h''}"
    and post: "set post \<subseteq> {CHR ''a'', CHR ''n'', CHR ''p'', CHR ''l''}"
  shows "\<exists>w. parseCommandLine_while_d ((CHR ''-'' # pre @ x # post) # deq) pr opts
               = Throw (invalid_argument (ia_errmsg (CHR ''-'' # pre @ x # post)))
                   (opts\<lparr>decipher_flags := w\<rparr>) \<and>
    (flag_test w 2 \<longleftrightarrow> CHR ''a'' \<in> set post \<or> CHR ''n'' \<in> set post) \<and>
    (flag_test w 3 \<longleftrightarrow> CHR ''a'' \<in> set post \<or> CHR ''p'' \<in> set post) \<and>
    (flag_test w 7 \<longleftrightarrow> CHR ''l'' \<in> set post) \<and>
    \<not> flag_test w 0 \<and>
    (flag_test w 1 \<longleftrightarrow> flag_test (decipher_flags opts) 1)"
proof -
  from parseSingleCharOptions_unknown [OF dash x post, of opts] obtain w where
    w: "parseSingleCharOptions (CHR ''-'' # pre @ x # post) opts
               = (CMDLN_USER_ERROR, opts\<lparr>decipher_flags := w\<rparr>)"
    "(flag_test w 2 \<longleftrightarrow> CHR ''a'' \<in> set post \<or> CHR ''n'' \<in> set post)"
    "(flag_test w 3 \<longleftrightarrow> CHR ''a'' \<in> set post \<or> CHR ''p'' \<in> set post)"
    "(flag_test w 7 \<longleftrightarrow> CHR ''l'' \<in> set post)" "\<not> flag_test w 0"
    "(flag_test w 1 \<longleftrightarrow> flag_test (decipher_flags opts) 1)"
    by blast
  have "parseCommandLine_body_d (CHR ''-'' # pre @ x # post) deq pr opts
          = Throw (invalid_argument (ia_errmsg (CHR ''-'' # pre @ x # post)))
                   (opts\<lparr>decipher_flags := w\<rparr>)"
    using combined_token_not_named [OF dash len] w(1)
    by (simp add: parseCommandLine_body_d_def)
  then have "parseCommandLine_while_d ((CHR ''-'' # pre @ x # post) # deq) pr opts
               = Throw (invalid_argument (ia_errmsg (CHR ''-'' # pre @ x # post)))
                   (opts\<lparr>decipher_flags := w\<rparr>)"
    by (simp add: parseCommandLine_while_d.simps)
  then show ?thesis using w(2-6) by blast
qed

lemma parseCommandLine_for_b_unknown:
  assumes "\<exists>c \<in> set cs. c \<notin> {CHR ''a'', CHR ''l'', CHR ''n'', CHR ''p'', CHR ''h''}"
  shows "\<exists>c \<in> set cs. c \<notin> {CHR ''a'', CHR ''l'', CHR ''n'', CHR ''p'', CHR ''h''} \<and>
           parseCommandLine_for_b curropt sz cs pr n opts
             = Throw (invalid_argument (sco_errmsg c curropt))
                 (opts\<lparr>display_log_info_b := False, dec_numbers := False, dec_puncts := False,
                    decipher_flags_b := flag_assign (flag_assign (flag_assign
                      (decipher_flags_b opts) 7 False) 2 False) 3 False\<rparr>)"
  using assms
proof (induction cs arbitrary: pr n opts)
  case Nil
  then show ?case by simp
next
  case (Cons c cs)
  show ?case
  proof (cases "c \<in> {CHR ''a'', CHR ''l'', CHR ''n'', CHR ''p'', CHR ''h''}")
    case False
    then show ?thesis by simp
  next
    case True
    then have rest: "\<exists>c \<in> set cs. c \<notin> {CHR ''a'', CHR ''l'', CHR ''n'', CHR ''p'', CHR ''h''}"
      using Cons.prems by auto
    consider "c = CHR ''a''" | "c = CHR ''n''" | "c = CHR ''p''" | "c = CHR ''l''" | "c = CHR ''h''"
      using True by auto
    then show ?thesis
    proof cases
      case 1
      then show ?thesis
        using Cons.IH [OF rest, of pr n "opts\<lparr>dec_numbers := True, dec_puncts := True\<rparr>"]
        by auto
    next
      case 2
      then show ?thesis
        using Cons.IH [OF rest, of pr n "opts\<lparr>dec_numbers := True\<rparr>"] by auto
    next
      case 3
      then show ?thesis
        using Cons.IH [OF rest, of pr n "opts\<lparr>dec_puncts := True\<rparr>"] by auto
    next
      case 4
      then show ?thesis
        using Cons.IH [OF rest, of pr n "opts\<lparr>display_log_info_b := True\<rparr>"] by auto
    next
      case 5
      then show ?thesis
        using Cons.IH [OF rest, of 1 sz opts] by auto
    qed
  qed
qed

lemma parseCommandLine_body_b_unknown:
  assumes "usr_cmdln ! opt_number = CHR ''-'' # cs" "CHR ''-'' \<notin> set cs" "1 < length cs"
    and "\<exists>c \<in> set cs. c \<notin> {CHR ''a'', CHR ''l'', CHR ''n'', CHR ''p'', CHR ''h''}"
  shows "\<exists>c \<in> set cs. c \<notin> {CHR ''a'', CHR ''l'', CHR ''n'', CHR ''p'', CHR ''h''} \<and>
           parseCommandLine_body_b usr_cmdln opt_number pr opts
             = Throw (invalid_argument (sco_errmsg c (CHR ''-'' # cs)))
                 (opts\<lparr>display_log_info_b := False, dec_numbers := False, dec_puncts := False,
                    decipher_flags_b := flag_assign (flag_assign (flag_assign
                      (decipher_flags_b opts) 7 False) 2 False) 3 False\<rparr>)"
proof -
  from parseCommandLine_for_b_unknown [OF assms(4), of "CHR ''-'' # cs" "length usr_cmdln" pr
      opt_number opts]
  obtain c where c: "c \<in> set cs" "c \<notin> {CHR ''a'', CHR ''l'', CHR ''n'', CHR ''p'', CHR ''h''}"
    "parseCommandLine_for_b (CHR ''-'' # cs) (length usr_cmdln) cs pr opt_number opts
             = Throw (invalid_argument (sco_errmsg c (CHR ''-'' # cs)))
                 (opts\<lparr>display_log_info_b := False, dec_numbers := False, dec_puncts := False,
                    decipher_flags_b := flag_assign (flag_assign (flag_assign
                      (decipher_flags_b opts) 7 False) 2 False) 3 False\<rparr>)"
    by blast
  have "parseCommandLine_body_b usr_cmdln opt_number pr opts
             = Throw (invalid_argument (sco_errmsg c (CHR ''-'' # cs)))
                 (opts\<lparr>display_log_info_b := False, dec_numbers := False, dec_puncts := False,
                    decipher_flags_b := flag_assign (flag_assign (flag_assign
                      (decipher_flags_b opts) 7 False) 2 False) 3 False\<rparr>)"
    using combined_token_not_named [OF assms(2,3)] find_last_of_dash_only_first [OF assms(2)]
      assms(1) c(3)
    by (simp add: parseCommandLine_body_b_def)
  then show ?thesis using c(1,2) by blast
qed

lemma parseCommandLine_while_unknown:
  assumes "opt_number < length usr_cmdln"
    and "usr_cmdln ! opt_number = CHR ''-'' # cs" "CHR ''-'' \<notin> set cs" "1 < length cs"
    and "\<exists>c \<in> set cs. c \<notin> {CHR ''a'', CHR ''l'', CHR ''n'', CHR ''p'', CHR ''h''}"
  shows "\<exists>c \<in> set cs. c \<notin> {CHR ''a'', CHR ''l'', CHR ''n'', CHR ''p'', CHR ''h''} \<and>
           parseCommandLine_while usr_cmdln opt_number pr opts
             = Throw (invalid_argument (sco_errmsg c (CHR ''-'' # cs)))
                 (opts\<lparr>display_log_info := False, enc_numbers := False, enc_puncts := False\<rparr>)"
proof -
  from parseCommandLine_body_unknown [OF assms(2-5), of pr opts] obtain c where
    c: "c \<in> set cs" "c \<notin> {CHR ''a'', CHR ''l'', CHR ''n'', CHR ''p'', CHR ''h''}"
      "parseCommandLine_body usr_cmdln opt_number pr opts
             = Throw (invalid_argument (sco_errmsg c (CHR ''-'' # cs)))
                 (opts\<lparr>display_log_info := False, enc_numbers := False, enc_puncts := False\<rparr>)"
    by blast
  have "parseCommandLine_while usr_cmdln opt_number pr opts
             = Throw (invalid_argument (sco_errmsg c (CHR ''-'' # cs)))
                 (opts\<lparr>display_log_info := False, enc_numbers := False, enc_puncts := False\<rparr>)"
    using assms(1) c(3) by (simp add: parseCommandLine_while.simps)
  then show ?thesis using c(1,2) by blast
qed

lemma parseCommandLine_while_b_unknown:
  assumes "opt_number < length usr_cmdln"
    and "usr_cmdln ! opt_number = CHR ''-'' # cs" "CHR ''-'' \<notin> set cs" "1 < length cs"
    and "\<exists>c \<in> set cs. c \<notin> {CHR ''a'', CHR ''l'', CHR ''n'', CHR ''p'', CHR ''h''}"
  shows "\<exists>c \<in> set cs. c \<notin> {CHR ''a'', CHR ''l'', CHR ''n'', CHR ''p'', CHR ''h''} \<and>
           parseCommandLine_while_b usr_cmdln opt_number pr opts
             = Throw (invalid_argument (sco_errmsg c (CHR ''-'' # cs)))
                 (opts\<lparr>display_log_info_b := False, dec_numbers := False, dec_puncts := False,
                    decipher_flags_b := flag_assign (flag_assign (flag_assign
                      (decipher_flags_b opts) 7 False) 2 False) 3 False\<rparr>)"
proof -
  from parseCommandLine_body_b_unknown [OF assms(2-5), of pr opts] obtain c where
    c: "c \<in> set cs" "c \<notin> {CHR ''a'', CHR ''l'', CHR ''n'', CHR ''p'', CHR ''h''}"
      "parseCommandLine_body_b usr_cmdln opt_number pr opts
             = Throw (invalid_argument (sco_errmsg c (CHR ''-'' # cs)))
                 (opts\<lparr>display_log_info_b := False, dec_numbers := False, dec_puncts := False,
                    decipher_flags_b := flag_assign (flag_assign (flag_assign
                      (decipher_flags_b opts) 7 False) 2 False) 3 False\<rparr>)"
    by blast
  have "parseCommandLine_while_b usr_cmdln opt_number pr opts
             = Throw (invalid_argument (sco_errmsg c (CHR ''-'' # cs)))
                 (opts\<lparr>display_log_info_b := False, dec_numbers := False, dec_puncts := False,
                    decipher_flags_b := flag_assign (flag_assign (flag_assign
                      (decipher_flags_b opts) 7 False) 2 False) 3 False\<rparr>)"
    using assms(1) c(3) by (simp add: parseCommandLine_while_b.simps)
  then show ?thesis using c(1,2) by blast
qed

section \<open>Claims about the command line\<close>

text \<open>
  Claim C6, as the programs have it. When the parser reaches a combined single-character
  token with an unrecognized character, the index-based parsers throw
  \<open>std::invalid_argument\<close> with a message that names the character and the token, and the
  options at that moment are the options before the token with the digits, punctuation
  and logging options reset to false: an option set by an earlier token is lost, every
  other field is as the earlier tokens left it. The deque-based parser resets the four
  flags at the unrecognized character; when only \<open>a\<close>, \<open>n\<close>, \<open>p\<close>, \<open>l\<close> follow it, the
  parser throws \<open>std::invalid_argument\<close> naming the token, the flags are those that the
  following characters set, and the other fields and the default-name flag are unchanged.
\<close>

theorem unknown_character_resets_flags:
  assumes tok: "CHR ''-'' \<notin> set cs" "1 < length cs"
    and bad: "\<exists>c \<in> set cs. c \<notin> {CHR ''a'', CHR ''l'', CHR ''n'', CHR ''p'', CHR ''h''}"
    and pos: "opt_number < length usr_cmdln" "usr_cmdln ! opt_number = CHR ''-'' # cs"
  shows "(\<exists>c \<in> set cs. c \<notin> {CHR ''a'', CHR ''l'', CHR ''n'', CHR ''p'', CHR ''h''} \<and>
           parseCommandLine_while usr_cmdln opt_number pr opts
             = Throw (invalid_argument (sco_errmsg c (CHR ''-'' # cs)))
                 (opts\<lparr>display_log_info := False, enc_numbers := False,
                    enc_puncts := False\<rparr>)) \<and>
         (\<exists>c \<in> set cs. c \<notin> {CHR ''a'', CHR ''l'', CHR ''n'', CHR ''p'', CHR ''h''} \<and>
           parseCommandLine_while_b usr_cmdln opt_number pr opts_b
             = Throw (invalid_argument (sco_errmsg c (CHR ''-'' # cs)))
                 (opts_b\<lparr>display_log_info_b := False, dec_numbers := False, dec_puncts := False,
                    decipher_flags_b := flag_assign (flag_assign (flag_assign
                      (decipher_flags_b opts_b) 7 False) 2 False) 3 False\<rparr>)) \<and>
         (\<forall>pre x post.
            cs = pre @ x # post \<and> x \<notin> {CHR ''a'', CHR ''n'', CHR ''p'', CHR ''l'', CHR ''h''} \<and>
            set post \<subseteq> {CHR ''a'', CHR ''n'', CHR ''p'', CHR ''l''} \<longrightarrow>
            (\<exists>w. parseCommandLine_while_d ((CHR ''-'' # cs) # deq) pr_d opts_d
                   = Throw (invalid_argument (ia_errmsg (CHR ''-'' # cs)))
                       (opts_d\<lparr>decipher_flags := w\<rparr>) \<and>
                 (flag_test w 2 \<longleftrightarrow> CHR ''a'' \<in> set post \<or> CHR ''n'' \<in> set post) \<and>
                 (flag_test w 3 \<longleftrightarrow> CHR ''a'' \<in> set post \<or> CHR ''p'' \<in> set post) \<and>
                 (flag_test w 7 \<longleftrightarrow> CHR ''l'' \<in> set post) \<and>
                 \<not> flag_test w 0 \<and>
                 (flag_test w 1 \<longleftrightarrow> flag_test (decipher_flags opts_d) 1)))"
proof (intro conjI allI impI)
  show "\<exists>c \<in> set cs. c \<notin> {CHR ''a'', CHR ''l'', CHR ''n'', CHR ''p'', CHR ''h''} \<and>
           parseCommandLine_while usr_cmdln opt_number pr opts
             = Throw (invalid_argument (sco_errmsg c (CHR ''-'' # cs)))
                 (opts\<lparr>display_log_info := False, enc_numbers := False,
                    enc_puncts := False\<rparr>)"
    by (rule parseCommandLine_while_unknown [OF pos tok bad])
  show "\<exists>c \<in> set cs. c \<notin> {CHR ''a'', CHR ''l'', CHR ''n'', CHR ''p'', CHR ''h''} \<and>
           parseCommandLine_while_b usr_cmdln opt_number pr opts_b
             = Throw (invalid_argument (sco_errmsg c (CHR ''-'' # cs)))
                 (opts_b\<lparr>display_log_info_b := False, dec_numbers := False, dec_puncts := False,
                    decipher_flags_b := flag_assign (flag_assign (flag_assign
                      (decipher_flags_b opts_b) 7 False) 2 False) 3 False\<rparr>)"
    by (rule parseCommandLine_while_b_unknown [OF pos tok bad])
next
  fix pre x post
  assume a: "cs = pre @ x # post \<and> x \<notin> {CHR ''a'', CHR ''n'', CHR ''p'', CHR ''l'', CHR ''h''} \<and>
            set post \<subseteq> {CHR ''a'', CHR ''n'', CHR ''p'', CHR ''l''}"
  then have cs: "cs = pre @ x # post" by blast
  show "\<exists>w. parseCommandLine_while_d ((CHR ''-'' # cs) # deq) pr_d opts_d
                   = Throw (invalid_argument (ia_errmsg (CHR ''-'' # cs)))
                       (opts_d\<lparr>decipher_flags := w\<rparr>) \<and>
                 (flag_test w 2 \<longleftrightarrow> CHR ''a'' \<in> set post \<or> CHR ''n'' \<in> set post) \<and>
                 (flag_test w 3 \<longleftrightarrow> CHR ''a'' \<in> set post \<or> CHR ''p'' \<in> set post) \<and>
                 (flag_test w 7 \<longleftrightarrow> CHR ''l'' \<in> set post) \<and>
                 \<not> flag_test w 0 \<and>
                 (flag_test w 1 \<longleftrightarrow> flag_test (decipher_flags opts_d) 1)"
    unfolding cs
    using parseCommandLine_while_d_unknown [of pre x post deq pr_d opts_d] tok a
    unfolding cs by blast
qed

theorem unknown_character_resets_flags_counterexample:
  "parseCommandLine [''prog'', ''--shift-nums''] CipherOptions_default
     = Return 0 (CipherOptions_default\<lparr>program_name := ''prog'', prog_name_stripped := ''prog'',
          enc_numbers := True\<rparr>) \<and>
   parseCommandLine [''prog'', ''--shift-nums'', ''-nx''] CipherOptions_default
     = Throw (invalid_argument (sco_errmsg CHR ''x'' ''-nx''))
         (CipherOptions_default\<lparr>program_name := ''prog'', prog_name_stripped := ''prog'',
          display_log_info := False, enc_numbers := False, enc_puncts := False\<rparr>) \<and>
   enc_numbers (CipherOptions_default\<lparr>program_name := ''prog'', prog_name_stripped := ''prog'',
          enc_numbers := True\<rparr>) \<and>
   \<not> enc_numbers (CipherOptions_default\<lparr>program_name := ''prog'', prog_name_stripped := ''prog'',
          display_log_info := False, enc_numbers := False, enc_puncts := False\<rparr>)"
  by (simp add: parseCommandLine_def at_def filename_def CipherOptions_default_def
      parseCommandLine_while.simps parseCommandLine_body_def find_last_of_gt_0_def
      find_last_of_def)

theorem unknown_character_resets_flags_witness:
  "parseCommandLine_while [''prog'', ''--shift-nums'', ''-nx''] 2 0
      (CipherOptions_default\<lparr>enc_numbers := True\<rparr>)
     = Throw (invalid_argument (sco_errmsg CHR ''x'' ''-nx''))
         (CipherOptions_default\<lparr>enc_numbers := True, display_log_info := False,
            enc_numbers := False, enc_puncts := False\<rparr>) \<and>
   parseCommandLine_while_b [''prog'', ''--shift-nums'', ''-nx''] 2 0
      (DecipherCtrlOpts_b_default\<lparr>dec_numbers := True\<rparr>)
     = Throw (invalid_argument (sco_errmsg CHR ''x'' ''-nx''))
         (DecipherCtrlOpts_b_default\<lparr>dec_numbers := True, display_log_info_b := False,
            dec_numbers := False, dec_puncts := False,
            decipher_flags_b := flag_assign (flag_assign (flag_assign 64 7 False) 2 False) 3 False\<rparr>) \<and>
   (\<exists>w. parseCommandLine_while_d [''-nx'']  CMDLN_OK
           (DecipherCtrlOpts_default\<lparr>decipher_flags := flag_assign 64 2 True\<rparr>)
         = Throw (invalid_argument (ia_errmsg ''-nx''))
             (DecipherCtrlOpts_default\<lparr>decipher_flags := w\<rparr>) \<and>
        \<not> flag_test w 2 \<and> \<not> flag_test w 3 \<and> \<not> flag_test w 7 \<and> \<not> flag_test w 0)"
proof -
  have h: "CHR ''-'' \<notin> set ''nx''" "1 < length ''nx''"
    "\<exists>c \<in> set ''nx''. c \<notin> {CHR ''a'', CHR ''l'', CHR ''n'', CHR ''p'', CHR ''h''}"
    "2 < length [''prog'', ''--shift-nums'', ''-nx'']"
    "[''prog'', ''--shift-nums'', ''-nx''] ! 2 = CHR ''-'' # ''nx''"
    by simp_all
  have c: "c \<in> set ''nx'' \<Longrightarrow> c \<notin> {CHR ''a'', CHR ''l'', CHR ''n'', CHR ''p'', CHR ''h''}
             \<Longrightarrow> c = CHR ''x''" for c
    by auto
  have d: "''nx'' = ''n'' @ CHR ''x'' # [] \<and>
      CHR ''x'' \<notin> {CHR ''a'', CHR ''n'', CHR ''p'', CHR ''l'', CHR ''h''} \<and>
      set [] \<subseteq> {CHR ''a'', CHR ''n'', CHR ''p'', CHR ''l''}"
    by simp
  note t = unknown_character_resets_flags [OF h, of 0 "CipherOptions_default\<lparr>enc_numbers := True\<rparr>"
      "DecipherCtrlOpts_b_default\<lparr>dec_numbers := True\<rparr>" "[]" CMDLN_OK
      "DecipherCtrlOpts_default\<lparr>decipher_flags := flag_assign 64 2 True\<rparr>"]
  from t have 1: "parseCommandLine_while [''prog'', ''--shift-nums'', ''-nx''] 2 0
      (CipherOptions_default\<lparr>enc_numbers := True\<rparr>)
     = Throw (invalid_argument (sco_errmsg CHR ''x'' ''-nx''))
         (CipherOptions_default\<lparr>enc_numbers := True, display_log_info := False,
            enc_numbers := False, enc_puncts := False\<rparr>)"
    using c by (metis h(5))
  from t have 2: "parseCommandLine_while_b [''prog'', ''--shift-nums'', ''-nx''] 2 0
      (DecipherCtrlOpts_b_default\<lparr>dec_numbers := True\<rparr>)
     = Throw (invalid_argument (sco_errmsg CHR ''x'' ''-nx''))
         (DecipherCtrlOpts_b_default\<lparr>dec_numbers := True, display_log_info_b := False,
            dec_numbers := False, dec_puncts := False,
            decipher_flags_b := flag_assign (flag_assign (flag_assign 64 7 False) 2 False) 3 False\<rparr>)"
    using c by (simp add: DecipherCtrlOpts_b_default_def)
  note t3 = t [THEN conjunct2, THEN conjunct2, rule_format, of "''n''" "CHR ''x''" "[]", OF d]
  from t3 have 3: "\<exists>w. parseCommandLine_while_d [''-nx'']  CMDLN_OK
           (DecipherCtrlOpts_default\<lparr>decipher_flags := flag_assign 64 2 True\<rparr>)
         = Throw (invalid_argument (ia_errmsg ''-nx''))
             (DecipherCtrlOpts_default\<lparr>decipher_flags := w\<rparr>) \<and>
        \<not> flag_test w 2 \<and> \<not> flag_test w 3 \<and> \<not> flag_test w 7 \<and> \<not> flag_test w 0"
    by auto
  from 1 2 3 show ?thesis by (intro conjI)
qed

lemma parseCommandLine_for_result:
  "parseCommandLine_for curropt sz cs pr n opts = Return (pr', n') opts' \<Longrightarrow>
     (pr' = pr \<or> pr' = 1) \<and> infilename opts' = infilename opts \<and>
     outfilename opts' = outfilename opts \<and> use_default_oname opts' = use_default_oname opts \<and>
     shift_amount opts' = shift_amount opts"
proof (induction cs arbitrary: pr n opts)
  case Nil
  then show ?case by simp
next
  case (Cons c cs)
  consider "c = CHR ''a''" | "c = CHR ''n''" | "c = CHR ''p''" | "c = CHR ''l''" | "c = CHR ''h''"
    | "c \<notin> {CHR ''a'', CHR ''l'', CHR ''n'', CHR ''p'', CHR ''h''}"
    by blast
  then show ?case
  proof cases
    case 1
    then show ?thesis
      using Cons.prems Cons.IH [of pr n "opts\<lparr>enc_numbers := True, enc_puncts := True\<rparr>"]
      by simp
  next
    case 2
    then show ?thesis
      using Cons.prems Cons.IH [of pr n "opts\<lparr>enc_numbers := True\<rparr>"] by simp
  next
    case 3
    then show ?thesis
      using Cons.prems Cons.IH [of pr n "opts\<lparr>enc_puncts := True\<rparr>"] by simp
  next
    case 4
    then show ?thesis
      using Cons.prems Cons.IH [of pr n "opts\<lparr>display_log_info := True\<rparr>"] by simp
  next
    case 5
    then show ?thesis
      using Cons.prems Cons.IH [of 1 sz opts] by auto
  next
    case 6
    then show ?thesis using Cons.prems by simp
  qed
qed

lemma parseCommandLine_for_zero:
  "parseCommandLine_for curropt sz cs pr n opts = Return (0, n') opts' \<Longrightarrow>
     pr = 0 \<and> n' = n \<and> parseCommandLine_for curropt sz' cs pr n opts = Return (0, n') opts'"
proof (induction cs arbitrary: pr n opts)
  case Nil
  then show ?case by simp
next
  case (Cons c cs)
  consider "c = CHR ''a''" | "c = CHR ''n''" | "c = CHR ''p''" | "c = CHR ''l''" | "c = CHR ''h''"
    | "c \<notin> {CHR ''a'', CHR ''l'', CHR ''n'', CHR ''p'', CHR ''h''}"
    by blast
  then show ?case
  proof cases
    case 1
    then show ?thesis
      using Cons.prems Cons.IH [of pr n "opts\<lparr>enc_numbers := True, enc_puncts := True\<rparr>"]
      by auto
  next
    case 2
    then show ?thesis
      using Cons.prems Cons.IH [of pr n "opts\<lparr>enc_numbers := True\<rparr>"] by auto
  next
    case 3
    then show ?thesis
      using Cons.prems Cons.IH [of pr n "opts\<lparr>enc_puncts := True\<rparr>"] by auto
  next
    case 4
    then show ?thesis
      using Cons.prems Cons.IH [of pr n "opts\<lparr>display_log_info := True\<rparr>"] by auto
  next
    case 5
    then show ?thesis
      using Cons.prems Cons.IH [of 1 sz opts] by auto
  next
    case 6
    then show ?thesis using Cons.prems by simp
  qed
qed

lemma at_append:
  "at xs n = Some v \<Longrightarrow> at (xs @ ys) n = Some v \<and> n < length xs"
  by (auto simp: at_def nth_append split: if_splits)

lemma token_cases [case_names opt_i opt_o opt_s opt_nums opt_puncts opt_all opt_help opt_log other]:
  fixes tok :: string
  obtains "tok = ''-i'' \<or> tok = ''--ifile''"
    | "tok = ''-o'' \<or> tok = ''--ofile''"
    | "tok = ''-s'' \<or> tok = ''--shift-amount''"
    | "tok = ''--shift-nums''"
    | "tok = ''--shift-puncts''"
    | "tok = ''--shift-all''"
    | "tok = ''--help''"
    | "tok = ''--show-log''"
    | "tok \<noteq> ''-i''" "tok \<noteq> ''--ifile''" "tok \<noteq> ''-o''" "tok \<noteq> ''--ofile''" "tok \<noteq> ''-s''"
      "tok \<noteq> ''--shift-amount''" "tok \<noteq> ''--shift-nums''" "tok \<noteq> ''--shift-puncts''"
      "tok \<noteq> ''--shift-all''" "tok \<noteq> ''--help''" "tok \<noteq> ''--show-log''"
  by blast

lemma parseCommandLine_body_branches:
  "usr_cmdln ! n = ''-i'' \<or> usr_cmdln ! n = ''--ifile'' \<Longrightarrow>
     parseCommandLine_body usr_cmdln n pr opts =
       (case at usr_cmdln (n + 1) of
          None \<Rightarrow> Throw (out_of_range ''vector::at'') opts
        | Some v \<Rightarrow> Return (pr, n + 2) (opts\<lparr>infilename := v\<rparr>))"
  "usr_cmdln ! n = ''-o'' \<or> usr_cmdln ! n = ''--ofile'' \<Longrightarrow>
     parseCommandLine_body usr_cmdln n pr opts =
       (case at usr_cmdln (n + 1) of
          None \<Rightarrow> Throw (out_of_range ''vector::at'') opts
        | Some v \<Rightarrow> Return (pr, n + 2) (opts\<lparr>outfilename := v, use_default_oname := False\<rparr>))"
  "usr_cmdln ! n = ''-s'' \<or> usr_cmdln ! n = ''--shift-amount'' \<Longrightarrow>
     parseCommandLine_body usr_cmdln n pr opts =
       (case at usr_cmdln (n + 1) of
          None \<Rightarrow> Throw (out_of_range ''vector::at'') opts
        | Some currarg \<Rightarrow>
            (case stoi currarg of
               Inl e \<Rightarrow> Throw e opts
             | Inr k \<Rightarrow> Return (pr, n + 2) (opts\<lparr>shift_amount := k\<rparr>)))"
  "usr_cmdln ! n = ''--shift-nums'' \<Longrightarrow>
     parseCommandLine_body usr_cmdln n pr opts = Return (pr, n + 1) (opts\<lparr>enc_numbers := True\<rparr>)"
  "usr_cmdln ! n = ''--shift-puncts'' \<Longrightarrow>
     parseCommandLine_body usr_cmdln n pr opts = Return (pr, n + 1) (opts\<lparr>enc_puncts := True\<rparr>)"
  "usr_cmdln ! n = ''--shift-all'' \<Longrightarrow>
     parseCommandLine_body usr_cmdln n pr opts
       = Return (pr, n + 1) (opts\<lparr>enc_numbers := True, enc_puncts := True\<rparr>)"
  "usr_cmdln ! n = ''--help'' \<Longrightarrow>
     parseCommandLine_body usr_cmdln n pr opts = Return (1, length usr_cmdln) opts"
  "usr_cmdln ! n = ''--show-log'' \<Longrightarrow>
     parseCommandLine_body usr_cmdln n pr opts
       = Return (pr, n + 1) (opts\<lparr>display_log_info := True\<rparr>)"
  by (auto simp: parseCommandLine_body_def)

lemma parseCommandLine_body_other:
  assumes "tok = usr_cmdln ! n"
    and "tok \<noteq> ''-i''" "tok \<noteq> ''--ifile''" "tok \<noteq> ''-o''" "tok \<noteq> ''--ofile''" "tok \<noteq> ''-s''"
      "tok \<noteq> ''--shift-amount''" "tok \<noteq> ''--shift-nums''" "tok \<noteq> ''--shift-puncts''"
      "tok \<noteq> ''--shift-all''" "tok \<noteq> ''--help''" "tok \<noteq> ''--show-log''"
  shows "parseCommandLine_body usr_cmdln n pr opts =
     (if find_last_of_gt_0 tok CHR ''-'' then Throw (invalid_argument (ia_errmsg tok)) opts
      else (case parseCommandLine_for tok (length usr_cmdln) (drop 1 tok) pr n opts of
              Return (pr, n) opts \<Rightarrow> Return (pr, n + 1) opts
            | Throw e opts \<Rightarrow> Throw e opts
            | Undefined \<Rightarrow> Undefined))"
  using assms by (simp add: parseCommandLine_body_def Let_def)

lemma parseCommandLine_body_result:
  assumes "parseCommandLine_body usr_cmdln n pr opts = Return (pr', n') opts'"
  shows "(pr' = pr \<or> pr' = 1) \<and>
     (usr_cmdln ! n \<notin> {''-i'', ''--ifile''} \<longrightarrow> infilename opts' = infilename opts) \<and>
     (usr_cmdln ! n \<notin> {''-o'', ''--ofile''} \<longrightarrow> outfilename opts' = outfilename opts \<and>
        use_default_oname opts' = use_default_oname opts) \<and>
     (usr_cmdln ! n \<notin> {''-s'', ''--shift-amount''} \<longrightarrow> shift_amount opts' = shift_amount opts)"
proof (cases "usr_cmdln ! n" rule: token_cases)
  case opt_i
  then show ?thesis
    using assms unfolding parseCommandLine_body_branches(1) [OF opt_i]
    by (auto split: option.splits)
next
  case opt_o
  then show ?thesis
    using assms unfolding parseCommandLine_body_branches(2) [OF opt_o]
    by (auto split: option.splits)
next
  case opt_s
  then show ?thesis
    using assms unfolding parseCommandLine_body_branches(3) [OF opt_s]
    by (auto split: option.splits sum.splits)
next
  case opt_nums
  then show ?thesis
    using assms unfolding parseCommandLine_body_branches(4) [OF opt_nums] by auto
next
  case opt_puncts
  then show ?thesis
    using assms unfolding parseCommandLine_body_branches(5) [OF opt_puncts] by auto
next
  case opt_all
  then show ?thesis
    using assms unfolding parseCommandLine_body_branches(6) [OF opt_all] by auto
next
  case opt_help
  then show ?thesis
    using assms unfolding parseCommandLine_body_branches(7) [OF opt_help] by auto
next
  case opt_log
  then show ?thesis
    using assms unfolding parseCommandLine_body_branches(8) [OF opt_log] by auto
next
  case other
  note eq = parseCommandLine_body_other [OF refl other, of pr opts]
  from assms obtain n0 where
    f: "parseCommandLine_for (usr_cmdln ! n) (length usr_cmdln) (drop 1 (usr_cmdln ! n)) pr n opts
          = Return (pr', n0) opts'"
    unfolding eq by (auto split: if_splits outcome.splits)
  from parseCommandLine_for_result [OF f] show ?thesis by blast
qed

lemma parseCommandLine_body_zero:
  assumes "parseCommandLine_body usr_cmdln n pr opts = Return (0, n') opts'"
    and "n < length usr_cmdln"
  shows "pr = 0 \<and> n' \<le> length usr_cmdln \<and>
     parseCommandLine_body (usr_cmdln @ rest) n pr opts = Return (0, n') opts'"
proof -
  have tok: "(usr_cmdln @ rest) ! n = usr_cmdln ! n"
    using assms(2) by (simp add: nth_append)
  show ?thesis
  proof (cases "usr_cmdln ! n" rule: token_cases)
    case opt_i
    from assms(1) obtain v where v: "at usr_cmdln (n + 1) = Some v"
      unfolding parseCommandLine_body_branches(1) [OF opt_i]
      by (auto split: option.splits)
    note a = at_append [OF v, of rest]
    show ?thesis
      using assms(1) v a unfolding parseCommandLine_body_branches(1) [OF opt_i]
        parseCommandLine_body_branches(1) [OF opt_i [folded tok]]
      by (auto split: sum.splits)
  next
    case opt_o
    from assms(1) obtain v where v: "at usr_cmdln (n + 1) = Some v"
      unfolding parseCommandLine_body_branches(2) [OF opt_o]
      by (auto split: option.splits)
    note a = at_append [OF v, of rest]
    show ?thesis
      using assms(1) v a unfolding parseCommandLine_body_branches(2) [OF opt_o]
        parseCommandLine_body_branches(2) [OF opt_o [folded tok]]
      by (auto split: sum.splits)
  next
    case opt_s
    from assms(1) obtain v where v: "at usr_cmdln (n + 1) = Some v"
      unfolding parseCommandLine_body_branches(3) [OF opt_s]
      by (auto split: option.splits)
    note a = at_append [OF v, of rest]
    show ?thesis
      using assms(1) v a unfolding parseCommandLine_body_branches(3) [OF opt_s]
        parseCommandLine_body_branches(3) [OF opt_s [folded tok]]
      by (auto split: sum.splits)
  next
    case opt_nums
    then show ?thesis
      using assms unfolding parseCommandLine_body_branches(4) [OF opt_nums]
        parseCommandLine_body_branches(4) [OF opt_nums [folded tok]]
      by auto
  next
    case opt_puncts
    then show ?thesis
      using assms unfolding parseCommandLine_body_branches(5) [OF opt_puncts]
        parseCommandLine_body_branches(5) [OF opt_puncts [folded tok]]
      by auto
  next
    case opt_all
    then show ?thesis
      using assms unfolding parseCommandLine_body_branches(6) [OF opt_all]
        parseCommandLine_body_branches(6) [OF opt_all [folded tok]]
      by auto
  next
    case opt_help
    then show ?thesis
      using assms unfolding parseCommandLine_body_branches(7) [OF opt_help]
      by auto
  next
    case opt_log
    then show ?thesis
      using assms unfolding parseCommandLine_body_branches(8) [OF opt_log]
        parseCommandLine_body_branches(8) [OF opt_log [folded tok]]
      by auto
  next
    case other
    note eq = parseCommandLine_body_other [OF refl other, of pr opts]
    note eq' = parseCommandLine_body_other [OF tok [symmetric] other, of pr opts]
    from assms(1) obtain n0 where
      f: "parseCommandLine_for (usr_cmdln ! n) (length usr_cmdln) (drop 1 (usr_cmdln ! n)) pr n opts
            = Return (0, n0) opts'" and n0: "n' = n0 + 1"
      and fl: "\<not> find_last_of_gt_0 (usr_cmdln ! n) CHR ''-''"
      unfolding eq by (auto split: if_splits outcome.splits)
    from parseCommandLine_for_zero [OF f, of "length (usr_cmdln @ rest)"]
    have z: "pr = 0" "n0 = n"
      "parseCommandLine_for (usr_cmdln ! n) (length (usr_cmdln @ rest)) (drop 1 (usr_cmdln ! n))
         pr n opts = Return (0, n0) opts'"
      by blast+
    show ?thesis
      unfolding eq' using z fl n0 assms(2) by simp
  qed
qed

lemma parseCommandLine_while_result:
  "parseCommandLine_while usr_cmdln n pr opts = Return r opts' \<Longrightarrow> r = pr \<or> r = 1"
proof (induction usr_cmdln n pr opts rule: parseCommandLine_while.induct)
  case (1 usr_cmdln n pr opts)
  show ?case
  proof (cases "n < length usr_cmdln")
    case False
    then show ?thesis using "1.prems" by (simp add: parseCommandLine_while.simps)
  next
    case True
    then obtain pr1 n1 o1 where
      b: "parseCommandLine_body usr_cmdln n pr opts = Return (pr1, n1) o1"
      and w: "parseCommandLine_while usr_cmdln n1 pr1 o1 = Return r opts'"
      using "1.prems" True
      by (subst (asm) parseCommandLine_while.simps) (auto split: outcome.splits)
    from "1.IH" [OF True b refl w] parseCommandLine_body_result [OF b]
    show ?thesis by auto
  qed
qed

lemma parseCommandLine_while_append:
  assumes "parseCommandLine_while usr_cmdln n pr opts = Return 0 o1" "n \<le> length usr_cmdln"
  shows "parseCommandLine_while (usr_cmdln @ rest) n pr opts
           = parseCommandLine_while (usr_cmdln @ rest) (length usr_cmdln) 0 o1"
  using assms
proof (induction usr_cmdln n pr opts rule: parseCommandLine_while.induct)
  case (1 usr_cmdln n pr opts)
  show ?case
  proof (cases "n < length usr_cmdln")
    case False
    then show ?thesis using "1.prems" by (simp add: parseCommandLine_while.simps)
  next
    case True
    then obtain pr1 n1 o2 where
      b: "parseCommandLine_body usr_cmdln n pr opts = Return (pr1, n1) o2"
      and w: "parseCommandLine_while usr_cmdln n1 pr1 o2 = Return 0 o1"
      using "1.prems" True
      by (subst (asm) parseCommandLine_while.simps) (auto split: outcome.splits)
    from parseCommandLine_while_result [OF w] have pr1: "pr1 = 0" by auto
    from parseCommandLine_body_zero [OF b [unfolded pr1] True, of rest]
    have z: "pr = 0" "n1 \<le> length usr_cmdln"
      "parseCommandLine_body (usr_cmdln @ rest) n pr opts = Return (0, n1) o2"
      by blast+
    have "parseCommandLine_while (usr_cmdln @ rest) n pr opts
            = parseCommandLine_while (usr_cmdln @ rest) n1 0 o2"
      using True z(3) by (subst parseCommandLine_while.simps) simp
    also have "\<dots> = parseCommandLine_while (usr_cmdln @ rest) (length usr_cmdln) 0 o1"
      using "1.IH" [OF True b refl w z(2)] pr1 by simp
    finally show ?thesis .
  qed
qed

lemma parseCommandLine_while_preserves:
  assumes "parseCommandLine_while usr_cmdln n pr opts = Return r opts'"
  shows "((\<forall>j. n \<le> j \<and> j < length usr_cmdln \<longrightarrow> usr_cmdln ! j \<notin> {''-i'', ''--ifile''})
            \<longrightarrow> infilename opts' = infilename opts) \<and>
         ((\<forall>j. n \<le> j \<and> j < length usr_cmdln \<longrightarrow> usr_cmdln ! j \<notin> {''-o'', ''--ofile''})
            \<longrightarrow> outfilename opts' = outfilename opts \<and>
                use_default_oname opts' = use_default_oname opts) \<and>
         ((\<forall>j. n \<le> j \<and> j < length usr_cmdln \<longrightarrow>
               usr_cmdln ! j \<notin> {''-s'', ''--shift-amount''})
            \<longrightarrow> shift_amount opts' = shift_amount opts)"
  using assms
proof (induction usr_cmdln n pr opts rule: parseCommandLine_while.induct)
  case (1 usr_cmdln n pr opts)
  show ?case
  proof (cases "n < length usr_cmdln")
    case False
    then show ?thesis using "1.prems" by (simp add: parseCommandLine_while.simps)
  next
    case True
    then obtain pr1 n1 o1 where
      b: "parseCommandLine_body usr_cmdln n pr opts = Return (pr1, n1) o1"
      and w: "parseCommandLine_while usr_cmdln n1 pr1 o1 = Return r opts'"
      using "1.prems" True
      by (subst (asm) parseCommandLine_while.simps) (auto split: outcome.splits)
    note adv = parseCommandLine_body_advances [OF b True]
    note res = parseCommandLine_body_result [OF b]
    note IH = "1.IH" [OF True b refl w]
    have i: "infilename opts' = infilename opts"
      if "\<forall>j. n \<le> j \<and> j < length usr_cmdln \<longrightarrow> usr_cmdln ! j \<notin> {''-i'', ''--ifile''}"
    proof -
      have "usr_cmdln ! n \<notin> {''-i'', ''--ifile''}" using that True by blast
      moreover have "\<forall>j. n1 \<le> j \<and> j < length usr_cmdln \<longrightarrow> usr_cmdln ! j \<notin> {''-i'', ''--ifile''}"
        using that adv by auto
      ultimately show ?thesis using res IH by simp
    qed
    have o: "outfilename opts' = outfilename opts \<and>
        use_default_oname opts' = use_default_oname opts"
      if "\<forall>j. n \<le> j \<and> j < length usr_cmdln \<longrightarrow> usr_cmdln ! j \<notin> {''-o'', ''--ofile''}"
    proof -
      have "usr_cmdln ! n \<notin> {''-o'', ''--ofile''}" using that True by blast
      moreover have "\<forall>j. n1 \<le> j \<and> j < length usr_cmdln \<longrightarrow> usr_cmdln ! j \<notin> {''-o'', ''--ofile''}"
        using that adv by auto
      ultimately show ?thesis using res IH by simp
    qed
    have s: "shift_amount opts' = shift_amount opts"
      if "\<forall>j. n \<le> j \<and> j < length usr_cmdln \<longrightarrow> usr_cmdln ! j \<notin> {''-s'', ''--shift-amount''}"
    proof -
      have "usr_cmdln ! n \<notin> {''-s'', ''--shift-amount''}" using that True by blast
      moreover have "\<forall>j. n1 \<le> j \<and> j < length usr_cmdln \<longrightarrow>
          usr_cmdln ! j \<notin> {''-s'', ''--shift-amount''}"
        using that adv by auto
      ultimately show ?thesis using res IH by simp
    qed
    from i o s show ?thesis by blast
  qed
qed

lemma parseCommandLine_prefix:
  assumes "parseCommandLine (prog # pre) opts0 = Return 0 o1"
  shows "parseCommandLine (prog # pre @ rest) opts0
           = parseCommandLine_while (prog # pre @ rest) (Suc (length pre)) 0 o1"
proof -
  let ?o = "opts0\<lparr>program_name := program_name opts0 @ prog,
                    prog_name_stripped := prog_name_stripped opts0 @ filename prog\<rparr>"
  have ne: "pre \<noteq> []"
    using assms by (auto simp: parseCommandLine_def at_def)
  then have w: "parseCommandLine_while (prog # pre) 1 0 ?o = Return 0 o1"
    using assms by (simp add: parseCommandLine_def at_def)
  have "parseCommandLine (prog # pre @ rest) opts0
          = parseCommandLine_while ((prog # pre) @ rest) 1 0 ?o"
    using ne by (simp add: parseCommandLine_def at_def)
  also have "\<dots> = parseCommandLine_while ((prog # pre) @ rest) (length (prog # pre)) 0 o1"
    by (rule parseCommandLine_while_append [OF w]) simp
  finally show ?thesis by simp
qed

lemma nth_after_prefix:
  "(prog # pre @ opt # v # post) ! Suc (length pre) = opt"
  "at (prog # pre @ opt # v # post) (Suc (length pre) + 1) = Some v"
  "Suc (length pre) < length (prog # pre @ opt # v # post)"
  "Suc (length pre) + 2 \<le> j \<Longrightarrow> j < length (prog # pre @ opt # v # post) \<Longrightarrow>
     (prog # pre @ opt # v # post) ! j \<in> set post"
  by (auto simp: at_def nth_append nth_Cons split: nat.splits)

lemma parseCommandLine_while_value_step:
  fixes pre post :: "string list"
  defines "n \<equiv> Suc (length pre)"
  shows "opt = ''-i'' \<or> opt = ''--ifile'' \<Longrightarrow>
           parseCommandLine_while (prog # pre @ opt # v # post) n pr opts
             = parseCommandLine_while (prog # pre @ opt # v # post) (n + 2) pr
                 (opts\<lparr>infilename := v\<rparr>)"
    and "opt = ''-o'' \<or> opt = ''--ofile'' \<Longrightarrow>
           parseCommandLine_while (prog # pre @ opt # v # post) n pr opts
             = parseCommandLine_while (prog # pre @ opt # v # post) (n + 2) pr
                 (opts\<lparr>outfilename := v, use_default_oname := False\<rparr>)"
    and "opt = ''-s'' \<or> opt = ''--shift-amount'' \<Longrightarrow> stoi v = Inr k \<Longrightarrow>
           parseCommandLine_while (prog # pre @ opt # v # post) n pr opts
             = parseCommandLine_while (prog # pre @ opt # v # post) (n + 2) pr
                 (opts\<lparr>shift_amount := k\<rparr>)"
proof -
  let ?cmd = "prog # pre @ opt # v # post"
  note f = nth_after_prefix(1-3) [where prog = prog and pre = pre and opt = opt and v = v
      and post = post, folded n_def]
  show "opt = ''-i'' \<or> opt = ''--ifile'' \<Longrightarrow>
           parseCommandLine_while ?cmd n pr opts
             = parseCommandLine_while ?cmd (n + 2) pr (opts\<lparr>infilename := v\<rparr>)"
    using f parseCommandLine_body_branches(1) [of ?cmd n pr opts]
    by (subst parseCommandLine_while.simps) simp
  show "opt = ''-o'' \<or> opt = ''--ofile'' \<Longrightarrow>
           parseCommandLine_while ?cmd n pr opts
             = parseCommandLine_while ?cmd (n + 2) pr
                 (opts\<lparr>outfilename := v, use_default_oname := False\<rparr>)"
    using f parseCommandLine_body_branches(2) [of ?cmd n pr opts]
    by (subst parseCommandLine_while.simps) simp
  show "opt = ''-s'' \<or> opt = ''--shift-amount'' \<Longrightarrow> stoi v = Inr k \<Longrightarrow>
           parseCommandLine_while ?cmd n pr opts
             = parseCommandLine_while ?cmd (n + 2) pr (opts\<lparr>shift_amount := k\<rparr>)"
    using f parseCommandLine_body_branches(3) [of ?cmd n pr opts]
    by (subst parseCommandLine_while.simps) simp
qed

lemma parseCommandLine_while_end:
  "length usr_cmdln \<le> n \<Longrightarrow> parseCommandLine_while usr_cmdln n pr opts = Return pr opts"
  by (simp add: parseCommandLine_while.simps)

lemma repeated_option_index:
  assumes pre: "parseCommandLine (prog # pre) opts0 = Return 0 o1"
  shows "opt = ''-i'' \<or> opt = ''--ifile'' \<Longrightarrow>
           parseCommandLine (prog # pre @ [opt, v]) opts0 = Return 0 (o1\<lparr>infilename := v\<rparr>)"
    and "opt = ''-i'' \<or> opt = ''--ifile'' \<Longrightarrow> set post \<inter> {''-i'', ''--ifile''} = {} \<Longrightarrow>
           parseCommandLine (prog # pre @ opt # v # post) opts0 = Return r o2 \<Longrightarrow>
           infilename o2 = v"
    and "opt = ''-o'' \<or> opt = ''--ofile'' \<Longrightarrow>
           parseCommandLine (prog # pre @ [opt, v]) opts0
             = Return 0 (o1\<lparr>outfilename := v, use_default_oname := False\<rparr>)"
    and "opt = ''-o'' \<or> opt = ''--ofile'' \<Longrightarrow> set post \<inter> {''-o'', ''--ofile''} = {} \<Longrightarrow>
           parseCommandLine (prog # pre @ opt # v # post) opts0 = Return r o2 \<Longrightarrow>
           outfilename o2 = v \<and> \<not> use_default_oname o2"
    and "opt = ''-s'' \<or> opt = ''--shift-amount'' \<Longrightarrow> stoi v = Inr k \<Longrightarrow>
           parseCommandLine (prog # pre @ [opt, v]) opts0 = Return 0 (o1\<lparr>shift_amount := k\<rparr>)"
    and "opt = ''-s'' \<or> opt = ''--shift-amount'' \<Longrightarrow> stoi v = Inr k \<Longrightarrow>
           set post \<inter> {''-s'', ''--shift-amount''} = {} \<Longrightarrow>
           parseCommandLine (prog # pre @ opt # v # post) opts0 = Return r o2 \<Longrightarrow>
           shift_amount o2 = k"
proof -
  let ?n = "Suc (length pre)"
  note p = parseCommandLine_prefix [OF pre]
  note st = parseCommandLine_while_value_step [where prog = prog and pre = pre and v = v
      and pr = 0 and opts = o1]
  have fin: "parseCommandLine_while (prog # pre @ [opt, v]) (?n + 2) 0 opts = Return 0 opts"
    for opts
    by (rule parseCommandLine_while_end) simp
  show "opt = ''-i'' \<or> opt = ''--ifile'' \<Longrightarrow>
           parseCommandLine (prog # pre @ [opt, v]) opts0 = Return 0 (o1\<lparr>infilename := v\<rparr>)"
    using p [where rest = "[opt, v]"] st(1) [where opt = opt and post = "[]"] fin by simp
  show "opt = ''-o'' \<or> opt = ''--ofile'' \<Longrightarrow>
           parseCommandLine (prog # pre @ [opt, v]) opts0
             = Return 0 (o1\<lparr>outfilename := v, use_default_oname := False\<rparr>)"
    using p [where rest = "[opt, v]"] st(2) [where opt = opt and post = "[]"] fin by simp
  show "opt = ''-s'' \<or> opt = ''--shift-amount'' \<Longrightarrow> stoi v = Inr k \<Longrightarrow>
           parseCommandLine (prog # pre @ [opt, v]) opts0 = Return 0 (o1\<lparr>shift_amount := k\<rparr>)"
    using p [where rest = "[opt, v]"] st(3) [where opt = opt and k = k and post = "[]"] fin by simp
  have later: "\<forall>j. ?n + 2 \<le> j \<and> j < length (prog # pre @ opt # v # post) \<longrightarrow>
      (prog # pre @ opt # v # post) ! j \<notin> S" if "set post \<inter> S = {}" for S
    using nth_after_prefix(4) [where prog = prog and pre = pre and opt = opt and v = v
        and post = post] that by blast
  show "opt = ''-i'' \<or> opt = ''--ifile'' \<Longrightarrow> set post \<inter> {''-i'', ''--ifile''} = {} \<Longrightarrow>
           parseCommandLine (prog # pre @ opt # v # post) opts0 = Return r o2 \<Longrightarrow>
           infilename o2 = v"
  proof -
    assume a: "opt = ''-i'' \<or> opt = ''--ifile''" "set post \<inter> {''-i'', ''--ifile''} = {}"
      "parseCommandLine (prog # pre @ opt # v # post) opts0 = Return r o2"
    have "parseCommandLine_while (prog # pre @ opt # v # post) (?n + 2) 0 (o1\<lparr>infilename := v\<rparr>)
            = Return r o2"
      using p [where rest = "opt # v # post"] st(1) [OF a(1), where post = post] a(3) by simp
    from parseCommandLine_while_preserves [OF this, THEN conjunct1] later [OF a(2)]
    show ?thesis by simp
  qed
  show "opt = ''-o'' \<or> opt = ''--ofile'' \<Longrightarrow> set post \<inter> {''-o'', ''--ofile''} = {} \<Longrightarrow>
           parseCommandLine (prog # pre @ opt # v # post) opts0 = Return r o2 \<Longrightarrow>
           outfilename o2 = v \<and> \<not> use_default_oname o2"
  proof -
    assume a: "opt = ''-o'' \<or> opt = ''--ofile''" "set post \<inter> {''-o'', ''--ofile''} = {}"
      "parseCommandLine (prog # pre @ opt # v # post) opts0 = Return r o2"
    have "parseCommandLine_while (prog # pre @ opt # v # post) (?n + 2) 0
            (o1\<lparr>outfilename := v, use_default_oname := False\<rparr>) = Return r o2"
      using p [where rest = "opt # v # post"] st(2) [OF a(1), where post = post] a(3) by simp
    from parseCommandLine_while_preserves [OF this, THEN conjunct2, THEN conjunct1]
      later [OF a(2)]
    show ?thesis by simp
  qed
  show "opt = ''-s'' \<or> opt = ''--shift-amount'' \<Longrightarrow> stoi v = Inr k \<Longrightarrow>
           set post \<inter> {''-s'', ''--shift-amount''} = {} \<Longrightarrow>
           parseCommandLine (prog # pre @ opt # v # post) opts0 = Return r o2 \<Longrightarrow>
           shift_amount o2 = k"
  proof -
    assume a: "opt = ''-s'' \<or> opt = ''--shift-amount''" "stoi v = Inr k"
      "set post \<inter> {''-s'', ''--shift-amount''} = {}"
      "parseCommandLine (prog # pre @ opt # v # post) opts0 = Return r o2"
    have "parseCommandLine_while (prog # pre @ opt # v # post) (?n + 2) 0
            (o1\<lparr>shift_amount := k\<rparr>) = Return r o2"
      using p [where rest = "opt # v # post"] st(3) [OF a(1,2), where post = post] a(4) by simp
    from parseCommandLine_while_preserves [OF this, THEN conjunct2, THEN conjunct2]
      later [OF a(3)]
    show ?thesis by simp
  qed
qed

lemma token_cases_d [case_names opt_i opt_o opt_s opt_nums opt_puncts opt_all opt_help opt_log
    other]:
  fixes tok :: string
  obtains "tok = ''-i'' \<or> tok = ''--ifile''"
    | "tok = ''-o'' \<or> tok = ''--ofile''"
    | "tok = ''-s'' \<or> tok = ''--shift-amount''"
    | "tok = ''--shift-numbers''"
    | "tok = ''--shift-puncts''"
    | "tok = ''--shift-all''"
    | "tok = ''--help''"
    | "tok = ''--show-log''"
    | "tok \<noteq> ''-i''" "tok \<noteq> ''--ifile''" "tok \<noteq> ''-o''" "tok \<noteq> ''--ofile''" "tok \<noteq> ''-s''"
      "tok \<noteq> ''--shift-amount''" "tok \<noteq> ''--shift-numbers''" "tok \<noteq> ''--shift-puncts''"
      "tok \<noteq> ''--shift-all''" "tok \<noteq> ''--help''" "tok \<noteq> ''--show-log''"
  by blast

lemma parseCommandLine_body_d_branches:
  "curr_arg = ''-i'' \<or> curr_arg = ''--ifile'' \<Longrightarrow>
     parseCommandLine_body_d curr_arg cmdln_deq pr opts =
       (case cmdln_deq of
          [] \<Rightarrow> Undefined
        | v # deq \<Rightarrow> Return (pr, deq) (opts\<lparr>infilename_d := v\<rparr>))"
  "curr_arg = ''-o'' \<or> curr_arg = ''--ofile'' \<Longrightarrow>
     parseCommandLine_body_d curr_arg cmdln_deq pr opts =
       (case cmdln_deq of
          [] \<Rightarrow> Undefined
        | v # deq \<Rightarrow>
            Return (pr, deq)
              (opts\<lparr>outfilename_d := v,
                 decipher_flags := flag_assign (decipher_flags opts) 1 False\<rparr>))"
  "curr_arg = ''-s'' \<or> curr_arg = ''--shift-amount'' \<Longrightarrow>
     parseCommandLine_body_d curr_arg cmdln_deq pr opts =
       (case cmdln_deq of
          [] \<Rightarrow> Undefined
        | tmp_int_str # deq \<Rightarrow>
            (case stoi tmp_int_str of
               Inl e \<Rightarrow> Throw e opts
             | Inr k \<Rightarrow> Return (pr, deq) (opts\<lparr>orig_shift_len := k\<rparr>)))"
  "curr_arg = ''--shift-numbers'' \<Longrightarrow>
     parseCommandLine_body_d curr_arg cmdln_deq pr opts =
       Return (pr, cmdln_deq)
         (opts\<lparr>decipher_flags := flag_assign (decipher_flags opts) 2 True\<rparr>)"
  "curr_arg = ''--shift-puncts'' \<Longrightarrow>
     parseCommandLine_body_d curr_arg cmdln_deq pr opts =
       Return (pr, cmdln_deq)
         (opts\<lparr>decipher_flags := flag_assign (decipher_flags opts) 3 True\<rparr>)"
  "curr_arg = ''--shift-all'' \<Longrightarrow>
     parseCommandLine_body_d curr_arg cmdln_deq pr opts =
       Return (pr, cmdln_deq)
         (opts\<lparr>decipher_flags := flag_assign (flag_assign (decipher_flags opts) 2 True) 3 True\<rparr>)"
  "curr_arg = ''--help'' \<Longrightarrow>
     parseCommandLine_body_d curr_arg cmdln_deq pr opts =
       Return (CMDLN_HELP_REQ, [])
         (opts\<lparr>decipher_flags := flag_assign (decipher_flags opts) 0 True\<rparr>)"
  "curr_arg = ''--show-log'' \<Longrightarrow>
     parseCommandLine_body_d curr_arg cmdln_deq pr opts =
       Return (pr, cmdln_deq)
         (opts\<lparr>decipher_flags := flag_assign (decipher_flags opts) 7 True\<rparr>)"
  by (auto simp: parseCommandLine_body_d_def)

lemma parseCommandLine_body_d_other:
  assumes "tok \<noteq> ''-i''" "tok \<noteq> ''--ifile''" "tok \<noteq> ''-o''" "tok \<noteq> ''--ofile''" "tok \<noteq> ''-s''"
      "tok \<noteq> ''--shift-amount''" "tok \<noteq> ''--shift-numbers''" "tok \<noteq> ''--shift-puncts''"
      "tok \<noteq> ''--shift-all''" "tok \<noteq> ''--help''" "tok \<noteq> ''--show-log''"
  shows "parseCommandLine_body_d tok cmdln_deq pr opts =
     (case parseSingleCharOptions tok opts of
        (CMDLN_USER_ERROR, opts) \<Rightarrow> Throw (invalid_argument (ia_errmsg tok)) opts
      | (CMDLN_HELP_REQ, opts) \<Rightarrow> Return (CMDLN_HELP_REQ, []) opts
      | (CMDLN_USAGE_REQ, opts) \<Rightarrow> Return (CMDLN_USAGE_REQ, []) opts
      | (CMDLN_OK, opts) \<Rightarrow> Return (CMDLN_OK, cmdln_deq) opts)"
  using assms by (simp add: parseCommandLine_body_d_def)

lemma parseSingleCharOptions_flags_only:
  "\<exists>w. snd (parseSingleCharOptions tok opts) = opts\<lparr>decipher_flags := w\<rparr> \<and>
       flag_test w 1 = flag_test (decipher_flags opts) 1"
proof (cases "find_last_of_gt_0 tok CHR ''-''")
  case True
  have "opts = opts\<lparr>decipher_flags := decipher_flags opts\<rparr>" by simp
  then have "\<exists>w. opts = opts\<lparr>decipher_flags := w\<rparr> \<and>
       flag_test w 1 = flag_test (decipher_flags opts) 1"
    by blast
  then show ?thesis using True by (simp add: parseSingleCharOptions_def)
next
  case False
  then show ?thesis
    using parseSingleCharOptions_while_flags_only [of "drop 1 tok" CMDLN_OK opts]
    by (simp add: parseSingleCharOptions_def)
qed

lemma parseCommandLine_body_d_result:
  assumes "parseCommandLine_body_d curr_arg cmdln_deq pr opts = Return (pr', deq') opts'"
  shows "(((pr' = CMDLN_HELP_REQ \<or> pr' = CMDLN_USAGE_REQ) \<and> deq' = []) \<or>
          parseCommandLine_body_d curr_arg (cmdln_deq @ rest) pr opts
            = Return (pr', deq' @ rest) opts') \<and>
     set deq' \<subseteq> set cmdln_deq \<and>
     (curr_arg \<notin> {''-i'', ''--ifile''} \<longrightarrow> infilename_d opts' = infilename_d opts) \<and>
     (curr_arg \<notin> {''-o'', ''--ofile''} \<longrightarrow> outfilename_d opts' = outfilename_d opts \<and>
        flag_test (decipher_flags opts') 1 = flag_test (decipher_flags opts) 1) \<and>
     (curr_arg \<notin> {''-s'', ''--shift-amount''} \<longrightarrow> orig_shift_len opts' = orig_shift_len opts)"
proof (cases curr_arg rule: token_cases_d)
  case opt_i
  then show ?thesis
    using assms unfolding parseCommandLine_body_d_branches(1) [OF opt_i]
    by (auto split: list.splits)
next
  case opt_o
  then show ?thesis
    using assms unfolding parseCommandLine_body_d_branches(2) [OF opt_o]
    by (auto split: list.splits)
next
  case opt_s
  then show ?thesis
    using assms unfolding parseCommandLine_body_d_branches(3) [OF opt_s]
    by (auto split: list.splits sum.splits)
next
  case opt_nums
  then show ?thesis
    using assms unfolding parseCommandLine_body_d_branches(4) [OF opt_nums]
    by (auto simp: flag_test_assign)
next
  case opt_puncts
  then show ?thesis
    using assms unfolding parseCommandLine_body_d_branches(5) [OF opt_puncts]
    by (auto simp: flag_test_assign)
next
  case opt_all
  then show ?thesis
    using assms unfolding parseCommandLine_body_d_branches(6) [OF opt_all]
    by (auto simp: flag_test_assign)
next
  case opt_help
  then show ?thesis
    using assms unfolding parseCommandLine_body_d_branches(7) [OF opt_help]
    by (auto simp: flag_test_assign)
next
  case opt_log
  then show ?thesis
    using assms unfolding parseCommandLine_body_d_branches(8) [OF opt_log]
    by (auto simp: flag_test_assign)
next
  case other
  note eq = parseCommandLine_body_d_other [OF other]
  obtain r w where p: "parseSingleCharOptions curr_arg opts = (r, opts\<lparr>decipher_flags := w\<rparr>)"
    and w: "flag_test w 1 = flag_test (decipher_flags opts) 1"
    using parseSingleCharOptions_flags_only [of curr_arg opts]
    by (cases "parseSingleCharOptions curr_arg opts") auto
  show ?thesis
    using assms w unfolding eq p
    by (cases r) auto
qed

lemma parseCommandLine_while_d_Nil:
  "parseCommandLine_while_d [] pr opts = Return pr opts"
  by (simp add: parseCommandLine_while_d.simps)

lemma parseCommandLine_while_d_append:
  assumes "parseCommandLine_while_d cmdln_deq pr opts = Return CMDLN_OK o1"
  shows "parseCommandLine_while_d (cmdln_deq @ rest) pr opts
           = parseCommandLine_while_d rest CMDLN_OK o1"
  using assms
proof (induction cmdln_deq pr opts rule: parseCommandLine_while_d.induct)
  case (1 cmdln_deq pr opts)
  show ?case
  proof (cases cmdln_deq)
    case Nil
    then show ?thesis using "1.prems" by (simp add: parseCommandLine_while_d_Nil)
  next
    case (Cons curr_arg deq)
    then obtain pr1 deq1 o2 where
      b: "parseCommandLine_body_d curr_arg deq pr opts = Return (pr1, deq1) o2"
      and w: "parseCommandLine_while_d deq1 pr1 o2 = Return CMDLN_OK o1"
      using "1.prems"
      by (subst (asm) parseCommandLine_while_d.simps) (auto split: outcome.splits)
    have "\<not> ((pr1 = CMDLN_HELP_REQ \<or> pr1 = CMDLN_USAGE_REQ) \<and> deq1 = [])"
      using w by (auto simp: parseCommandLine_while_d_Nil)
    with parseCommandLine_body_d_result [OF b, of rest]
    have b': "parseCommandLine_body_d curr_arg (deq @ rest) pr opts = Return (pr1, deq1 @ rest) o2"
      by blast
    have "parseCommandLine_while_d (cmdln_deq @ rest) pr opts
            = parseCommandLine_while_d (deq1 @ rest) pr1 o2"
      using Cons b' by (subst parseCommandLine_while_d.simps) simp
    also have "\<dots> = parseCommandLine_while_d rest CMDLN_OK o1"
      by (rule "1.IH" [OF Cons b refl w])
    finally show ?thesis .
  qed
qed

lemma parseCommandLine_while_d_preserves:
  assumes "parseCommandLine_while_d cmdln_deq pr opts = Return r opts'"
  shows "(set cmdln_deq \<inter> {''-i'', ''--ifile''} = {} \<longrightarrow> infilename_d opts' = infilename_d opts) \<and>
         (set cmdln_deq \<inter> {''-o'', ''--ofile''} = {} \<longrightarrow>
            outfilename_d opts' = outfilename_d opts \<and>
            flag_test (decipher_flags opts') 1 = flag_test (decipher_flags opts) 1) \<and>
         (set cmdln_deq \<inter> {''-s'', ''--shift-amount''} = {} \<longrightarrow>
            orig_shift_len opts' = orig_shift_len opts)"
  using assms
proof (induction cmdln_deq pr opts rule: parseCommandLine_while_d.induct)
  case (1 cmdln_deq pr opts)
  show ?case
  proof (cases cmdln_deq)
    case Nil
    then show ?thesis using "1.prems" by (simp add: parseCommandLine_while_d_Nil)
  next
    case (Cons curr_arg deq)
    then obtain pr1 deq1 o2 where
      b: "parseCommandLine_body_d curr_arg deq pr opts = Return (pr1, deq1) o2"
      and w: "parseCommandLine_while_d deq1 pr1 o2 = Return r opts'"
      using "1.prems"
      by (subst (asm) parseCommandLine_while_d.simps) (auto split: outcome.splits)
    note res = parseCommandLine_body_d_result [OF b, of "[]"]
    note IH = "1.IH" [OF Cons b refl w]
    have sub: "set deq1 \<inter> S = {}" "curr_arg \<notin> S" if "set cmdln_deq \<inter> S = {}" for S
      using that res Cons by auto
    have i: "infilename_d opts' = infilename_d opts"
      if "set cmdln_deq \<inter> {''-i'', ''--ifile''} = {}"
      using sub [OF that] res IH by simp
    have o: "outfilename_d opts' = outfilename_d opts \<and>
            flag_test (decipher_flags opts') 1 = flag_test (decipher_flags opts) 1"
      if "set cmdln_deq \<inter> {''-o'', ''--ofile''} = {}"
      using sub [OF that] res IH by simp
    have s: "orig_shift_len opts' = orig_shift_len opts"
      if "set cmdln_deq \<inter> {''-s'', ''--shift-amount''} = {}"
      using sub [OF that] res IH by simp
    from i o s show ?thesis by blast
  qed
qed

lemma parseCommandLine_d_prefix:
  assumes "parseCommandLine_d (prog # pre) opts0 = Return CMDLN_OK o1"
  shows "parseCommandLine_d (prog # pre @ rest) opts0 = parseCommandLine_while_d rest CMDLN_OK o1"
proof -
  let ?o = "opts0\<lparr>program_name_d := prog, prog_name_stripped_d := filename prog\<rparr>"
  have ne: "pre \<noteq> []"
    using assms by (auto simp: parseCommandLine_d_def)
  then have w: "parseCommandLine_while_d pre CMDLN_OK ?o = Return CMDLN_OK o1"
    using assms by (simp add: parseCommandLine_d_def)
  have "parseCommandLine_d (prog # pre @ rest) opts0
          = parseCommandLine_while_d (pre @ rest) CMDLN_OK ?o"
    using ne by (simp add: parseCommandLine_d_def)
  also have "\<dots> = parseCommandLine_while_d rest CMDLN_OK o1"
    by (rule parseCommandLine_while_d_append [OF w])
  finally show ?thesis .
qed

lemma parseCommandLine_while_d_value_step:
  "opt = ''-i'' \<or> opt = ''--ifile'' \<Longrightarrow>
     parseCommandLine_while_d (opt # v # post) pr opts
       = parseCommandLine_while_d post pr (opts\<lparr>infilename_d := v\<rparr>)"
  "opt = ''-o'' \<or> opt = ''--ofile'' \<Longrightarrow>
     parseCommandLine_while_d (opt # v # post) pr opts
       = parseCommandLine_while_d post pr
           (opts\<lparr>outfilename_d := v,
              decipher_flags := flag_assign (decipher_flags opts) 1 False\<rparr>)"
  "opt = ''-s'' \<or> opt = ''--shift-amount'' \<Longrightarrow> stoi v = Inr k \<Longrightarrow>
     parseCommandLine_while_d (opt # v # post) pr opts
       = parseCommandLine_while_d post pr (opts\<lparr>orig_shift_len := k\<rparr>)"
  by (subst parseCommandLine_while_d.simps, simp add: parseCommandLine_body_d_branches)+

lemma repeated_option_deque:
  assumes pre: "parseCommandLine_d (prog # pre) opts0 = Return CMDLN_OK o1"
  shows "opt = ''-i'' \<or> opt = ''--ifile'' \<Longrightarrow>
           parseCommandLine_d (prog # pre @ [opt, v]) opts0
             = Return CMDLN_OK (o1\<lparr>infilename_d := v\<rparr>)"
    and "opt = ''-i'' \<or> opt = ''--ifile'' \<Longrightarrow> set post \<inter> {''-i'', ''--ifile''} = {} \<Longrightarrow>
           parseCommandLine_d (prog # pre @ opt # v # post) opts0 = Return r o2 \<Longrightarrow>
           infilename_d o2 = v"
    and "opt = ''-o'' \<or> opt = ''--ofile'' \<Longrightarrow>
           parseCommandLine_d (prog # pre @ [opt, v]) opts0
             = Return CMDLN_OK (o1\<lparr>outfilename_d := v,
                 decipher_flags := flag_assign (decipher_flags o1) 1 False\<rparr>)"
    and "opt = ''-o'' \<or> opt = ''--ofile'' \<Longrightarrow> set post \<inter> {''-o'', ''--ofile''} = {} \<Longrightarrow>
           parseCommandLine_d (prog # pre @ opt # v # post) opts0 = Return r o2 \<Longrightarrow>
           outfilename_d o2 = v \<and> \<not> flag_test (decipher_flags o2) 1"
    and "opt = ''-s'' \<or> opt = ''--shift-amount'' \<Longrightarrow> stoi v = Inr k \<Longrightarrow>
           parseCommandLine_d (prog # pre @ [opt, v]) opts0
             = Return CMDLN_OK (o1\<lparr>orig_shift_len := k\<rparr>)"
    and "opt = ''-s'' \<or> opt = ''--shift-amount'' \<Longrightarrow> stoi v = Inr k \<Longrightarrow>
           set post \<inter> {''-s'', ''--shift-amount''} = {} \<Longrightarrow>
           parseCommandLine_d (prog # pre @ opt # v # post) opts0 = Return r o2 \<Longrightarrow>
           orig_shift_len o2 = k"
proof -
  note p = parseCommandLine_d_prefix [OF pre]
  note st = parseCommandLine_while_d_value_step [where v = v and pr = CMDLN_OK and opts = o1]
  show "opt = ''-i'' \<or> opt = ''--ifile'' \<Longrightarrow>
           parseCommandLine_d (prog # pre @ [opt, v]) opts0
             = Return CMDLN_OK (o1\<lparr>infilename_d := v\<rparr>)"
    using p [where rest = "[opt, v]"] st(1) [where opt = opt and post = "[]"]
    by (simp add: parseCommandLine_while_d_Nil)
  show "opt = ''-o'' \<or> opt = ''--ofile'' \<Longrightarrow>
           parseCommandLine_d (prog # pre @ [opt, v]) opts0
             = Return CMDLN_OK (o1\<lparr>outfilename_d := v,
                 decipher_flags := flag_assign (decipher_flags o1) 1 False\<rparr>)"
    using p [where rest = "[opt, v]"] st(2) [where opt = opt and post = "[]"]
    by (simp add: parseCommandLine_while_d_Nil)
  show "opt = ''-s'' \<or> opt = ''--shift-amount'' \<Longrightarrow> stoi v = Inr k \<Longrightarrow>
           parseCommandLine_d (prog # pre @ [opt, v]) opts0
             = Return CMDLN_OK (o1\<lparr>orig_shift_len := k\<rparr>)"
    using p [where rest = "[opt, v]"] st(3) [where opt = opt and post = "[]" and k = k]
    by (simp add: parseCommandLine_while_d_Nil)
  show "opt = ''-i'' \<or> opt = ''--ifile'' \<Longrightarrow> set post \<inter> {''-i'', ''--ifile''} = {} \<Longrightarrow>
           parseCommandLine_d (prog # pre @ opt # v # post) opts0 = Return r o2 \<Longrightarrow>
           infilename_d o2 = v"
  proof -
    assume a: "opt = ''-i'' \<or> opt = ''--ifile''" "set post \<inter> {''-i'', ''--ifile''} = {}"
      "parseCommandLine_d (prog # pre @ opt # v # post) opts0 = Return r o2"
    have "parseCommandLine_while_d post CMDLN_OK (o1\<lparr>infilename_d := v\<rparr>) = Return r o2"
      using p [where rest = "opt # v # post"] st(1) [OF a(1), where post = post] a(3) by simp
    from parseCommandLine_while_d_preserves [OF this, THEN conjunct1] a(2)
    show ?thesis by simp
  qed
  show "opt = ''-o'' \<or> opt = ''--ofile'' \<Longrightarrow> set post \<inter> {''-o'', ''--ofile''} = {} \<Longrightarrow>
           parseCommandLine_d (prog # pre @ opt # v # post) opts0 = Return r o2 \<Longrightarrow>
           outfilename_d o2 = v \<and> \<not> flag_test (decipher_flags o2) 1"
  proof -
    assume a: "opt = ''-o'' \<or> opt = ''--ofile''" "set post \<inter> {''-o'', ''--ofile''} = {}"
      "parseCommandLine_d (prog # pre @ opt # v # post) opts0 = Return r o2"
    have "parseCommandLine_while_d post CMDLN_OK (o1\<lparr>outfilename_d := v,
                 decipher_flags := flag_assign (decipher_flags o1) 1 False\<rparr>) = Return r o2"
      using p [where rest = "opt # v # post"] st(2) [OF a(1), where post = post] a(3) by simp
    from parseCommandLine_while_d_preserves [OF this, THEN conjunct2, THEN conjunct1] a(2)
    show ?thesis by (simp add: flag_test_assign)
  qed
  show "opt = ''-s'' \<or> opt = ''--shift-amount'' \<Longrightarrow> stoi v = Inr k \<Longrightarrow>
           set post \<inter> {''-s'', ''--shift-amount''} = {} \<Longrightarrow>
           parseCommandLine_d (prog # pre @ opt # v # post) opts0 = Return r o2 \<Longrightarrow>
           orig_shift_len o2 = k"
  proof -
    assume a: "opt = ''-s'' \<or> opt = ''--shift-amount''" "stoi v = Inr k"
      "set post \<inter> {''-s'', ''--shift-amount''} = {}"
      "parseCommandLine_d (prog # pre @ opt # v # post) opts0 = Return r o2"
    have "parseCommandLine_while_d post CMDLN_OK (o1\<lparr>orig_shift_len := k\<rparr>) = Return r o2"
      using p [where rest = "opt # v # post"] st(3) [OF a(1,2), where post = post] a(4) by simp
    from parseCommandLine_while_d_preserves [OF this, THEN conjunct2, THEN conjunct2] a(3)
    show ?thesis by simp
  qed
qed

lemma stoi_examples: "stoi ''7'' = Inr 7" "stoi ''-80'' = Inr (- 80)"
  by (simp_all add: stoi_def isspace_def isdigit_def digits_value_def digit_value_def is_int_def
      INT_MIN_def INT_MAX_def)

text \<open>
  Claim C10. Let the tokens before an occurrence of a value-taking option, which may hold
  earlier occurrences of it, parse without help or error. Then the occurrence with its
  value is accepted, it overwrites the value stored before, and when no later token is
  this option again the options that parsing returns hold the value of this occurrence.
  This holds for the input file, the output file and the shift amount (whose value must
  be an integer for \<open>std::stoi\<close>), in the enciphering program and in the deque-based
  deciphering program.
\<close>

theorem repeated_value_option_last_wins:
  assumes "parseCommandLine (prog # pre) opts0 = Return 0 o1"
    and "parseCommandLine_d (prog # pre_d) opts0_d = Return CMDLN_OK o1_d"
  shows "(opt = ''-i'' \<or> opt = ''--ifile'' \<longrightarrow>
           parseCommandLine (prog # pre @ [opt, v]) opts0 = Return 0 (o1\<lparr>infilename := v\<rparr>) \<and>
           parseCommandLine_d (prog # pre_d @ [opt, v]) opts0_d
             = Return CMDLN_OK (o1_d\<lparr>infilename_d := v\<rparr>) \<and>
           (\<forall>post r o2. set post \<inter> {''-i'', ''--ifile''} = {} \<and>
               parseCommandLine (prog # pre @ opt # v # post) opts0 = Return r o2
               \<longrightarrow> infilename o2 = v) \<and>
           (\<forall>post r o2. set post \<inter> {''-i'', ''--ifile''} = {} \<and>
               parseCommandLine_d (prog # pre_d @ opt # v # post) opts0_d = Return r o2
               \<longrightarrow> infilename_d o2 = v)) \<and>
         (opt = ''-o'' \<or> opt = ''--ofile'' \<longrightarrow>
           parseCommandLine (prog # pre @ [opt, v]) opts0
             = Return 0 (o1\<lparr>outfilename := v, use_default_oname := False\<rparr>) \<and>
           parseCommandLine_d (prog # pre_d @ [opt, v]) opts0_d
             = Return CMDLN_OK (o1_d\<lparr>outfilename_d := v,
                 decipher_flags := flag_assign (decipher_flags o1_d) 1 False\<rparr>) \<and>
           (\<forall>post r o2. set post \<inter> {''-o'', ''--ofile''} = {} \<and>
               parseCommandLine (prog # pre @ opt # v # post) opts0 = Return r o2
               \<longrightarrow> outfilename o2 = v \<and> \<not> use_default_oname o2) \<and>
           (\<forall>post r o2. set post \<inter> {''-o'', ''--ofile''} = {} \<and>
               parseCommandLine_d (prog # pre_d @ opt # v # post) opts0_d = Return r o2
               \<longrightarrow> outfilename_d o2 = v \<and> \<not> flag_test (decipher_flags o2) 1)) \<and>
         (opt = ''-s'' \<or> opt = ''--shift-amount'' \<longrightarrow>
           (\<forall>k. stoi v = Inr k \<longrightarrow>
              parseCommandLine (prog # pre @ [opt, v]) opts0 = Return 0 (o1\<lparr>shift_amount := k\<rparr>) \<and>
              parseCommandLine_d (prog # pre_d @ [opt, v]) opts0_d
                = Return CMDLN_OK (o1_d\<lparr>orig_shift_len := k\<rparr>) \<and>
              (\<forall>post r o2. set post \<inter> {''-s'', ''--shift-amount''} = {} \<and>
                  parseCommandLine (prog # pre @ opt # v # post) opts0 = Return r o2
                  \<longrightarrow> shift_amount o2 = k) \<and>
              (\<forall>post r o2. set post \<inter> {''-s'', ''--shift-amount''} = {} \<and>
                  parseCommandLine_d (prog # pre_d @ opt # v # post) opts0_d = Return r o2
                  \<longrightarrow> orig_shift_len o2 = k)))"
proof -
  note I = repeated_option_index [OF assms(1)]
  note D = repeated_option_deque [OF assms(2)]
  show ?thesis
    apply (intro conjI impI allI)
    subgoal by (rule I(1))
    subgoal by (rule D(1))
    subgoal by (elim conjE) (rule I(2); assumption)
    subgoal by (elim conjE) (rule D(2); assumption)
    subgoal by (rule I(3))
    subgoal by (rule D(3))
    subgoal by (elim conjE) (rule I(4) [THEN conjunct1]; assumption)
    subgoal by (elim conjE) (rule I(4) [THEN conjunct2]; assumption)
    subgoal by (elim conjE) (rule D(4) [THEN conjunct1]; assumption)
    subgoal by (elim conjE) (rule D(4) [THEN conjunct2]; assumption)
    subgoal by (rule I(5))
    subgoal by (rule D(5))
    subgoal by (elim conjE) (rule I(6); assumption)
    subgoal by (elim conjE) (rule D(6); assumption)
    done
qed


lemmas parse_eval =
  parseCommandLine_def parseCommandLine_d_def at_def filename_def CipherOptions_default_def
  DecipherCtrlOpts_default_def parseCommandLine_while.simps parseCommandLine_while_d.simps
  parseCommandLine_body_def parseCommandLine_body_d_def parseSingleCharOptions_def
  find_last_of_gt_0_def find_last_of_def flag_assign_def flag_test_def

theorem repeated_value_option_last_wins_witness:
  "parseCommandLine [''prog'', ''-i'', ''a'', ''-s'', ''3'', ''-i'', ''b''] CipherOptions_default
     = Return 0 (CipherOptions_default\<lparr>program_name := ''prog'', prog_name_stripped := ''prog'',
         infilename := ''a'', shift_amount := 3, infilename := ''b''\<rparr>) \<and>
   parseCommandLine_d [''prog'', ''-i'', ''a'', ''-s'', ''3'', ''-i'', ''b''] DecipherCtrlOpts_default
     = Return CMDLN_OK (DecipherCtrlOpts_default\<lparr>program_name_d := ''prog'',
         prog_name_stripped_d := ''prog'', infilename_d := ''a'', orig_shift_len := 3,
         infilename_d := ''b''\<rparr>) \<and>
   parseCommandLine [''prog'', ''-i'', ''a'', ''-s'', ''3'', ''-i'', ''b'', ''-a'']
     CipherOptions_default
     = Return 0 (CipherOptions_default\<lparr>program_name := ''prog'', prog_name_stripped := ''prog'',
         infilename := ''b'', shift_amount := 3, enc_numbers := True, enc_puncts := True\<rparr>) \<and>
   infilename (CipherOptions_default\<lparr>program_name := ''prog'', prog_name_stripped := ''prog'',
         infilename := ''b'', shift_amount := 3, enc_numbers := True, enc_puncts := True\<rparr>)
     = ''b'' \<and>
   parseCommandLine [''prog'', ''-i'', ''a'', ''-s'', ''3'', ''-o'', ''c''] CipherOptions_default
     = Return 0 (CipherOptions_default\<lparr>program_name := ''prog'', prog_name_stripped := ''prog'',
         infilename := ''a'', shift_amount := 3, outfilename := ''c'',
         use_default_oname := False\<rparr>) \<and>
   parseCommandLine [''prog'', ''-i'', ''a'', ''-s'', ''3'', ''-s'', ''7''] CipherOptions_default
     = Return 0 (CipherOptions_default\<lparr>program_name := ''prog'', prog_name_stripped := ''prog'',
         infilename := ''a'', shift_amount := 3, shift_amount := 7\<rparr>) \<and>
   parseCommandLine_d [''prog'', ''-i'', ''a'', ''-s'', ''3'', ''-s'', ''7''] DecipherCtrlOpts_default
     = Return CMDLN_OK (DecipherCtrlOpts_default\<lparr>program_name_d := ''prog'',
         prog_name_stripped_d := ''prog'', infilename_d := ''a'', orig_shift_len := 3,
         orig_shift_len := 7\<rparr>)"
proof -
  let ?e = "CipherOptions_default\<lparr>program_name := ''prog'', prog_name_stripped := ''prog'',
         infilename := ''a'', shift_amount := 3\<rparr>"
  let ?d = "DecipherCtrlOpts_default\<lparr>program_name_d := ''prog'',
         prog_name_stripped_d := ''prog'', infilename_d := ''a'', orig_shift_len := 3\<rparr>"
  have h: "parseCommandLine (''prog'' # [''-i'', ''a'', ''-s'', ''3'']) CipherOptions_default
      = Return 0 ?e"
    "parseCommandLine_d (''prog'' # [''-i'', ''a'', ''-s'', ''3'']) DecipherCtrlOpts_default
      = Return CMDLN_OK ?d"
    by (simp_all add: parse_eval stoi_def isspace_def isdigit_def digits_value_def
        digit_value_def is_int_def INT_MIN_def INT_MAX_def)
  note t = repeated_value_option_last_wins [OF h]
  have i: "''-i'' = ''-i'' \<or> ''-i'' = ''--ifile''" and o: "''-o'' = ''-o'' \<or> ''-o'' = ''--ofile''"
    and s: "''-s'' = ''-s'' \<or> ''-s'' = ''--shift-amount''"
    by simp_all
  note ti = t [where opt = "''-i''" and v = "''b''", THEN conjunct1, rule_format, OF i]
  note to = t [where opt = "''-o''" and v = "''c''", THEN conjunct2, THEN conjunct1,
      rule_format, OF o]
  note ts = t [where opt = "''-s''" and v = "''7''", THEN conjunct2, THEN conjunct2,
      rule_format, OF s stoi_examples(1)]
  have p: "set [''-a''] \<inter> {''-i'', ''--ifile''} = {}"
    by simp
  let ?x = "CipherOptions_default\<lparr>program_name := ''prog'', prog_name_stripped := ''prog'',
         infilename := ''b'', shift_amount := 3, enc_numbers := True, enc_puncts := True\<rparr>"
  have e: "parseCommandLine (''prog'' # [''-i'', ''a'', ''-s'', ''3''] @ ''-i'' # ''b'' # [''-a''])
             CipherOptions_default = Return 0 ?x"
    by (simp add: parse_eval stoi_def isspace_def isdigit_def digits_value_def
        digit_value_def is_int_def INT_MIN_def INT_MAX_def)
  have "infilename ?x = ''b''"
    by (rule ti [THEN conjunct2, THEN conjunct2, THEN conjunct1, rule_format,
          of "[''-a'']" 0 ?x]) (use p e in simp)
  with e have "parseCommandLine [''prog'', ''-i'', ''a'', ''-s'', ''3'', ''-i'', ''b'', ''-a'']
      CipherOptions_default = Return 0 ?x \<and> infilename ?x = ''b''"
    by simp
  then show ?thesis
    using ti [THEN conjunct1] ti [THEN conjunct2, THEN conjunct1] to [THEN conjunct1]
      ts [THEN conjunct1] ts [THEN conjunct2, THEN conjunct1]
    by simp
qed

lemma value_option_cases:
  assumes "opt \<in> {''-i'', ''--ifile'', ''-o'', ''--ofile'', ''-s'', ''--shift-amount''}"
  obtains "opt = ''-i'' \<or> opt = ''--ifile''" | "opt = ''-o'' \<or> opt = ''--ofile''"
    | "opt = ''-s'' \<or> opt = ''--shift-amount''"
  using assms by blast

lemma parseCommandLine_while_missing_value:
  assumes "opt \<in> {''-i'', ''--ifile'', ''-o'', ''--ofile'', ''-s'', ''--shift-amount''}"
  shows "parseCommandLine_while (prog # pre @ [opt]) (Suc (length pre)) pr opts
           = Throw (out_of_range ''vector::at'') opts"
proof -
  let ?cmd = "prog # pre @ [opt]"
  have n: "?cmd ! Suc (length pre) = opt" "at ?cmd (Suc (length pre) + 1) = None"
    "Suc (length pre) < length ?cmd"
    by (simp_all add: at_def)
  from assms show ?thesis
  proof (cases rule: value_option_cases)
    case 1
    then show ?thesis
      using n parseCommandLine_body_branches(1) [of ?cmd "Suc (length pre)" pr opts]
      by (subst parseCommandLine_while.simps) simp
  next
    case 2
    then show ?thesis
      using n parseCommandLine_body_branches(2) [of ?cmd "Suc (length pre)" pr opts]
      by (subst parseCommandLine_while.simps) simp
  next
    case 3
    then show ?thesis
      using n parseCommandLine_body_branches(3) [of ?cmd "Suc (length pre)" pr opts]
      by (subst parseCommandLine_while.simps) simp
  qed
qed

lemma parseCommandLine_while_d_missing_value:
  assumes "opt \<in> {''-i'', ''--ifile'', ''-o'', ''--ofile'', ''-s'', ''--shift-amount''}"
  shows "parseCommandLine_while_d [opt] pr opts = Undefined"
  using assms
proof (cases rule: value_option_cases)
  case 1
  then show ?thesis
    using parseCommandLine_body_d_branches(1) [of opt "[]" pr opts]
    by (subst parseCommandLine_while_d.simps) simp
next
  case 2
  then show ?thesis
    using parseCommandLine_body_d_branches(2) [of opt "[]" pr opts]
    by (subst parseCommandLine_while_d.simps) simp
next
  case 3
  then show ?thesis
    using parseCommandLine_body_d_branches(3) [of opt "[]" pr opts]
    by (subst parseCommandLine_while_d.simps) simp
qed

text \<open>
  A value-taking option as the last token, after a prefix that parses: the enciphering
  program throws \<open>std::out_of_range\<close> from \<open>vector::at\<close> and exits with status 1 with
  the files untouched; the deciphering program of ShiftDecipher.cpp reads the front of
  an empty deque.
\<close>

lemma missing_value_index_parser:
  assumes "opt \<in> {''-i'', ''--ifile'', ''-o'', ''--ofile'', ''-s'', ''--shift-amount''}"
  shows "parseCommandLine [prog, opt] opts0
           = Throw (out_of_range ''vector::at'')
               (opts0\<lparr>program_name := program_name opts0 @ prog,
                  prog_name_stripped := prog_name_stripped opts0 @ filename prog\<rparr>)"
    and "parseCommandLine (prog # pre) opts0 = Return 0 o1 \<Longrightarrow>
           parseCommandLine (prog # pre @ [opt]) opts0 = Throw (out_of_range ''vector::at'') o1"
    and "main [prog, opt] fs = Some (1, fs)"
    and "parseCommandLine (prog # pre) CipherOptions_default = Return 0 o1 \<Longrightarrow>
           main (prog # pre @ [opt]) fs = Some (1, fs)"
proof -
  show a: "parseCommandLine [prog, opt] opts0
           = Throw (out_of_range ''vector::at'')
               (opts0\<lparr>program_name := program_name opts0 @ prog,
                  prog_name_stripped := prog_name_stripped opts0 @ filename prog\<rparr>)"
    for opts0
    using parseCommandLine_while_missing_value [OF assms, of prog "[]"]
    by (simp add: parseCommandLine_def at_def)
  show b: "parseCommandLine (prog # pre @ [opt]) opts0 = Throw (out_of_range ''vector::at'') o1"
    if "parseCommandLine (prog # pre) opts0 = Return 0 o1" for opts0
    using parseCommandLine_prefix [OF that, of "[opt]"]
      parseCommandLine_while_missing_value [OF assms]
    by simp
  show "main [prog, opt] fs = Some (1, fs)"
    by (simp add: main_def a)
  show "main (prog # pre @ [opt]) fs = Some (1, fs)"
    if "parseCommandLine (prog # pre) CipherOptions_default = Return 0 o1"
    by (simp add: main_def b [OF that])
qed

lemma missing_value_deque_parser:
  assumes "opt \<in> {''-i'', ''--ifile'', ''-o'', ''--ofile'', ''-s'', ''--shift-amount''}"
  shows "parseCommandLine_d [prog, opt] opts0 = Undefined"
    and "parseCommandLine_d (prog # pre) opts0 = Return CMDLN_OK o1 \<Longrightarrow>
           parseCommandLine_d (prog # pre @ [opt]) opts0 = Undefined"
    and "main_d [prog, opt] fs = None"
    and "parseCommandLine_d (prog # pre) DecipherCtrlOpts_default = Return CMDLN_OK o1 \<Longrightarrow>
           main_d (prog # pre @ [opt]) fs = None"
proof -
  show a: "parseCommandLine_d [prog, opt] opts0 = Undefined" for opts0
    using parseCommandLine_while_d_missing_value [OF assms]
    by (simp add: parseCommandLine_d_def)
  show b: "parseCommandLine_d (prog # pre @ [opt]) opts0 = Undefined"
    if "parseCommandLine_d (prog # pre) opts0 = Return CMDLN_OK o1" for opts0
    using parseCommandLine_d_prefix [OF that, of "[opt]"]
      parseCommandLine_while_d_missing_value [OF assms]
    by simp
  show "main_d [prog, opt] fs = None"
    by (simp add: main_d_def a)
  show "main_d (prog # pre @ [opt]) fs = None"
    if "parseCommandLine_d (prog # pre) DecipherCtrlOpts_default = Return CMDLN_OK o1"
    by (simp add: main_d_def b [OF that])
qed

text \<open>
  Claim C7: a value-taking option as the last token, with no value after it, is a fatal
  out-of-range error and the program exits with status 1. The enciphering program does
  so (\<open>missing_value_index_parser\<close>). ShiftDecipher.cpp does not: its parser removes the
  option from the deque and reads \<open>front()\<close> without testing that a token is left, so
  for \<open>ShiftDecipher -i\<close> the deque is empty, the read is undefined behaviour, no
  \<open>std::out_of_range\<close> is thrown and no exit status is determined.
\<close>

theorem missing_value_reads_empty_deque:
  "parseCommandLine_d [''ShiftDecipher'', ''-i''] DecipherCtrlOpts_default = Undefined \<and>
   main_d [''ShiftDecipher'', ''-i''] fs = None \<and>
   main_d [''ShiftDecipher'', ''--ifile''] fs = None \<and>
   main_d [''ShiftDecipher'', ''-o''] fs = None \<and>
   main_d [''ShiftDecipher'', ''--ofile''] fs = None \<and>
   main_d [''ShiftDecipher'', ''-s''] fs = None \<and>
   main_d [''ShiftDecipher'', ''--shift-amount''] fs = None \<and>
   main_d [''ShiftDecipher'', ''-i'', ''in.txt'', ''-s''] fs = None"
  by (simp add: main_d_def parse_eval)

text \<open>
  Claim C9: in a combined single-character token that contains \<open>h\<close>, an unrecognized
  character after the \<open>h\<close> ends the run with a parse error and exit status 1. The
  enciphering program does so, and ShiftDecipher.cpp does so for \<open>-hx\<close>. For \<open>-hxh\<close>
  ShiftDecipher.cpp does not: the scan of \<open>parseSingleCharOptions\<close> goes on after the
  unrecognized character, the second \<open>h\<close> assigns the help code and sets flag 0 again,
  and the program shows the help and exits with status 0.
\<close>

theorem help_after_unknown_character_wins:
  "parseSingleCharOptions ''-hxh'' DecipherCtrlOpts_default
     = (CMDLN_HELP_REQ, DecipherCtrlOpts_default\<lparr>decipher_flags := 65\<rparr>) \<and>
   parseCommandLine_d [''ShiftDecipher'', ''-hxh''] DecipherCtrlOpts_default
     = Return CMDLN_HELP_REQ (DecipherCtrlOpts_default\<lparr>program_name_d := ''ShiftDecipher'',
         prog_name_stripped_d := ''ShiftDecipher'', decipher_flags := 65\<rparr>) \<and>
   main_d [''ShiftDecipher'', ''-hxh''] fs = Some (0, fs) \<and>
   main_d [''ShiftDecipher'', ''-hx''] fs = Some (1, fs) \<and>
   main [''ShiftCipher'', ''-hxh''] fs = Some (1, fs)"
  by (simp add: main_d_def main_def parse_eval)

end
